theory Spec2Isabelle
  imports Main
begin

section \<open>tinysh: data model\<close>

text \<open>
  The shell of \<^verbatim>\<open>tinysh.c\<close>. C strings are modelled by their contents up to
  the terminating NUL. A \<^verbatim>\<open>char *\<close> stored in \<^verbatim>\<open>args\<close> or \<^verbatim>\<open>redir\<close> is either
  \<^verbatim>\<open>NULL\<close>, a pointer to a token inside the input line (tokens occupy disjoint
  parts of the line, so such a pointer is modelled by the token's text), or the address of
  the one global buffer \<^verbatim>\<open>pidString\<close>, whose contents live in the globals.
\<close>

datatype ptr = Null | Tok string | PidString

text \<open>
  How a run of a function stops without returning: \<^verbatim>\<open>exit(n)\<close>, the replacement
  of the process image by \<^verbatim>\<open>execvp\<close>, or one of the memory errors of C (an index
  outside an array, a \<^verbatim>\<open>NULL\<close> handed to a string function, a write past a
  character buffer).
\<close>

datatype halt = Exit int | Execed | OutOfBounds | NullPointer | BufferOverflow

datatype event = Printf string | Perror string | Kill int | Chdir string

record globals =
  pidString :: string
  background :: int
  disallow_background :: int
  background_inform :: int

definition BGPID_ARR_SIZE :: nat where
  "BGPID_ARR_SIZE = 20"

definition NUM_ARGS :: nat where
  "NUM_ARGS = 513"

definition PATH_STR_SZ :: nat where
  "PATH_STR_SZ = 100"

definition PIDSTRING_SZ :: nat where
  "PIDSTRING_SZ = 50"

definition initial_globals :: globals where
  "initial_globals =
     \<lparr>pidString = [], background = 0, disallow_background = 0, background_inform = 0\<rparr>"

section \<open>Library functions used by the shell\<close>

text \<open>Decimal output of \<^verbatim>\<open>%d\<close> and \<^verbatim>\<open>%ld\<close>.\<close>

fun digits :: "nat \<Rightarrow> string" where
  "digits n =
     (if n < 10 then [''0123456789'' ! n]
      else digits (n div 10) @ [''0123456789'' ! (n mod 10)])"

declare digits.simps [simp del]

definition decimal :: "int \<Rightarrow> string" where
  "decimal i = (if i < 0 then CHR ''-'' # digits (nat (- i)) else digits (nat i))"

text \<open>
  \<^verbatim>\<open>strstr(hay, needle)\<close>: the offset of the first occurrence of the needle, if
  there is one.
\<close>

fun strstr :: "string \<Rightarrow> string \<Rightarrow> nat option" where
  "strstr [] needle = (if needle = [] then Some 0 else None)"
| "strstr (c # cs) needle =
     (if take (length needle) (c # cs) = needle then Some 0
      else map_option Suc (strstr cs needle))"

text \<open>
  \<^verbatim>\<open>strtok(_, " ")\<close> on the text from the saved position to the end of the line:
  leading spaces are skipped; if nothing is left there is no token, and later calls find
  none either; otherwise the token runs to the next space, which is overwritten by NUL,
  and the saved position is behind it.
\<close>

definition strtok :: "string \<Rightarrow> string option \<times> string" where
  "strtok s =
     (let t = dropWhile (\<lambda>c. c = CHR '' '') s
      in if t = [] then (None, [])
         else (Some (takeWhile (\<lambda>c. c \<noteq> CHR '' '') t),
               drop 1 (dropWhile (\<lambda>c. c \<noteq> CHR '' '') t)))"

text \<open>
  \<^verbatim>\<open>sprintf(pidString, "%s%ld", token, (long) getpid())\<close> into the 50 bytes of
  \<^verbatim>\<open>pidString\<close>: the text and its NUL must fit.
\<close>

definition sprintf_pidString :: "string \<Rightarrow> int \<Rightarrow> halt + string" where
  "sprintf_pidString token pid =
     (let s = token @ decimal pid
      in if length s < PIDSTRING_SZ then Inr s else Inl BufferOverflow)"

text \<open>Array accesses \<^verbatim>\<open>a[i] = v\<close> and \<^verbatim>\<open>a[i]\<close> with a C \<^verbatim>\<open>int\<close> index.\<close>

definition array_store :: "'a list \<Rightarrow> int \<Rightarrow> 'a \<Rightarrow> halt + 'a list" where
  "array_store a i v =
     (if 0 \<le> i \<and> i < int (length a) then Inr (a[nat i := v]) else Inl OutOfBounds)"

definition array_load :: "'a list \<Rightarrow> int \<Rightarrow> halt + 'a" where
  "array_load a i =
     (if 0 \<le> i \<and> i < int (length a) then Inr (a ! nat i) else Inl OutOfBounds)"

text \<open>The string a pointer denotes, for \<^verbatim>\<open>strcmp\<close> and \<^verbatim>\<open>strcpy\<close>.\<close>

fun c_str :: "globals \<Rightarrow> ptr \<Rightarrow> halt + string" where
  "c_str gl Null = Inl NullPointer"
| "c_str gl (Tok s) = Inr s"
| "c_str gl PidString = Inr (pidString gl)"

section \<open>parseCommand\<close>

lemma strtok_save_le: "length (snd (strtok s)) \<le> length s"
proof -
  have "length (dropWhile (\<lambda>c. c \<noteq> CHR '' '') (dropWhile (\<lambda>c. c = CHR '' '') s)) \<le> length s"
    by (meson length_dropWhile_le order_trans)
  then have "length (drop 1 (dropWhile (\<lambda>c. c \<noteq> CHR '' '') (dropWhile (\<lambda>c. c = CHR '' '') s)))
               \<le> length s"
    by simp
  then show ?thesis
    unfolding strtok_def Let_def by (simp del: length_drop drop_Suc_Cons)
qed

lemma strtok_save_less:
  assumes "strtok s = (Some t, r)"
  shows "length r < length s"
proof -
  define u where "u = dropWhile (\<lambda>c. c = CHR '' '') s"
  from assms have ne: "u \<noteq> []" and r: "r = drop 1 (dropWhile (\<lambda>c. c \<noteq> CHR '' '') u)"
    by (auto simp: strtok_def Let_def u_def split: if_splits)
  from ne obtain c cs where u: "u = c # cs" by (cases u) auto
  have "c \<noteq> CHR '' ''"
    using hd_dropWhile [of "\<lambda>c. c = CHR '' ''" s] ne u by (simp add: u_def)
  then have "length (dropWhile (\<lambda>c. c \<noteq> CHR '' '') u) \<le> length cs"
    by (simp add: u length_dropWhile_le)
  then have "length r < length u"
    by (simp add: r u)
  moreover have "length u \<le> length s"
    by (simp add: u_def length_dropWhile_le)
  ultimately show ?thesis by simp
qed

lemma strtok_measure:
  "length (snd (strtok s)) + (case fst (strtok s) of None \<Rightarrow> 0 | Some t \<Rightarrow> 1) < Suc (length s)"
proof (cases "strtok s")
  case (Pair a r)
  then show ?thesis
    using strtok_save_less [of s _ r] strtok_save_le [of s]
    by (cases a) auto
qed

lemma strtok_measure2:
  "length (snd (strtok (snd (strtok s))))
     + (case fst (strtok (snd (strtok s))) of None \<Rightarrow> 0 | Some t \<Rightarrow> 1) < Suc (length s)"
  using strtok_measure [of "snd (strtok s)"] strtok_save_le [of s] by linarith

text \<open>
  The \<^verbatim>\<open>while (token)\<close> loop of \<^verbatim>\<open>parseCommand\<close>. The first argument is the
  shell's process identifier (\<^verbatim>\<open>getpid()\<close>), the second the current token together
  with the saved position of \<^verbatim>\<open>strtok\<close>.
\<close>

function parse_loop ::
  "int \<Rightarrow> string option \<times> string \<Rightarrow> ptr list \<Rightarrow> ptr list \<Rightarrow> int \<Rightarrow> globals
    \<Rightarrow> halt + (ptr list \<times> ptr list \<times> int \<times> globals)" where
  "parse_loop pid (None, save) args redir argCount gl = Inr (args, redir, argCount, gl)"
| "parse_loop pid (Some token, save) args redir argCount gl =
     (case strstr token ''$$'' of
        Some i \<Rightarrow>
          (case sprintf_pidString (take i token) pid of
             Inl h \<Rightarrow> Inl h
           | Inr s \<Rightarrow>
               (case array_store args argCount PidString of
                  Inl h \<Rightarrow> Inl h
                | Inr args' \<Rightarrow>
                    parse_loop pid (strtok save) args' redir (argCount + 1)
                      (gl\<lparr>pidString := s\<rparr>)))
      | None \<Rightarrow>
          if token = ''<'' then
            (case array_store redir 0 (case fst (strtok save) of None \<Rightarrow> Null | Some t \<Rightarrow> Tok t) of
               Inl h \<Rightarrow> Inl h
             | Inr redir' \<Rightarrow>
                 parse_loop pid (strtok (snd (strtok save))) args redir' (argCount - 1 + 1) gl)
          else if token = ''>'' then
            (case array_store redir 1 (case fst (strtok save) of None \<Rightarrow> Null | Some t \<Rightarrow> Tok t) of
               Inl h \<Rightarrow> Inl h
             | Inr redir' \<Rightarrow>
                 parse_loop pid (strtok (snd (strtok save))) args redir' (argCount - 1 + 1) gl)
          else
            (case array_store args argCount (Tok token) of
               Inl h \<Rightarrow> Inl h
             | Inr args' \<Rightarrow> parse_loop pid (strtok save) args' redir (argCount + 1) gl))"
  by pat_completeness auto

termination
  by (relation "measure (\<lambda>(pid, ts, args, redir, argCount, gl).
          length (snd ts) + (case fst ts of None \<Rightarrow> 0 | Some t \<Rightarrow> 1))")
    (use strtok_measure strtok_measure2 in auto)

text \<open>
  \<^verbatim>\<open>parseCommand\<close>: the loop, the terminating \<^verbatim>\<open>NULL\<close>, and the test of the
  last argument against \<^verbatim>\<open>"&"\<close>. The result is the returned count with the arrays
  and globals as the call leaves them.
\<close>

definition parseCommand ::
  "int \<Rightarrow> string \<Rightarrow> ptr list \<Rightarrow> ptr list \<Rightarrow> globals
    \<Rightarrow> halt + (int \<times> ptr list \<times> ptr list \<times> globals)" where
  "parseCommand pid userInput args redir gl =
     (case parse_loop pid (strtok userInput) args redir 0 gl of
        Inl h \<Rightarrow> Inl h
      | Inr (args1, redir1, argCount, gl1) \<Rightarrow>
          (case array_store args1 argCount Null of
             Inl h \<Rightarrow> Inl h
           | Inr args2 \<Rightarrow>
               (case array_load args2 (argCount - 1) of
                  Inl h \<Rightarrow> Inl h
                | Inr p \<Rightarrow>
                    (case c_str gl1 p of
                       Inl h \<Rightarrow> Inl h
                     | Inr s \<Rightarrow>
                         if s = ''&'' then
                           (case array_store args2 (argCount - 1) Null of
                              Inl h \<Rightarrow> Inl h
                            | Inr args3 \<Rightarrow>
                                Inr (argCount, args3, redir1,
                                     if disallow_background gl1 = 0
                                     then gl1\<lparr>background := 1\<rparr> else gl1))
                         else Inr (argCount, args2, redir1, gl1)))))"

text \<open>
  The argument vector as \<^verbatim>\<open>execvp\<close> reads it: the strings denoted by the entries
  before the first \<^verbatim>\<open>NULL\<close>. (\<^verbatim>\<open>parseCommand\<close> always stores one; the
  first equation is for a list without it.)
\<close>

fun argv :: "globals \<Rightarrow> ptr list \<Rightarrow> string list" where
  "argv gl [] = []"
| "argv gl (Null # ps) = []"
| "argv gl (Tok s # ps) = s # argv gl ps"
| "argv gl (PidString # ps) = pidString gl # argv gl ps"

text \<open>
  The Command a successful parse leaves behind: the argument vector, the two redirection
  targets and the background flag.
\<close>

fun command_of ::
  "halt + (int \<times> ptr list \<times> ptr list \<times> globals) \<Rightarrow> halt + (string list \<times> ptr list \<times> int)" where
  "command_of (Inl h) = Inl h"
| "command_of (Inr (argCount, args, redir, gl)) = Inr (argv gl args, redir, background gl)"

section \<open>The job table\<close>

text \<open>
  The table is \<^verbatim>\<open>pid_t backgroundPIDs[BGPID_ARR_SIZE]\<close>, a list of
  \<^const>\<open>BGPID_ARR_SIZE\<close> process identifiers in which 0 marks an empty slot. Every
  loop over it runs its index from 0 to \<^const>\<open>BGPID_ARR_SIZE\<close>.
\<close>

function placePID_loop :: "int list \<Rightarrow> int \<Rightarrow> nat \<Rightarrow> int list \<times> int" where
  "placePID_loop bgPIDs addPID i =
     (if i < BGPID_ARR_SIZE then
        (if bgPIDs ! i = 0 then (bgPIDs[i := addPID], 1)
         else placePID_loop bgPIDs addPID (i + 1))
      else (bgPIDs, 0))"
  by pat_completeness auto

termination
  by (relation "measure (\<lambda>(bgPIDs, addPID, i). BGPID_ARR_SIZE - i)") auto

declare placePID_loop.simps [simp del]

text \<open>
  \<^verbatim>\<open>placePID\<close>: the second component of the loop's result is the local
  \<^verbatim>\<open>placed\<close>; when it is still 0 the shell prints a diagnostic and exits with 1.
\<close>

definition placePID :: "int list \<Rightarrow> int \<Rightarrow> event list \<times> (halt + int list)" where
  "placePID bgPIDs addPID =
     (case placePID_loop bgPIDs addPID 0 of
        (bgPIDs', placed) \<Rightarrow>
          if placed = 0 then ([Perror ''Couldn't track background process.''], Inl (Exit 1))
          else ([], Inr bgPIDs'))"

function scrubPIDArray_loop :: "int list \<Rightarrow> nat \<Rightarrow> int list" where
  "scrubPIDArray_loop pids i =
     (if i < BGPID_ARR_SIZE then scrubPIDArray_loop (pids[i := 0]) (i + 1) else pids)"
  by pat_completeness auto

termination
  by (relation "measure (\<lambda>(pids, i). BGPID_ARR_SIZE - i)") auto

declare scrubPIDArray_loop.simps [simp del]

definition scrubPIDArray :: "int list \<Rightarrow> int list" where
  "scrubPIDArray pids = scrubPIDArray_loop pids 0"

function killChildren_loop :: "int list \<Rightarrow> nat \<Rightarrow> event list \<Rightarrow> event list \<times> int list" where
  "killChildren_loop pids i out =
     (if i < BGPID_ARR_SIZE then
        (if pids ! i \<noteq> 0 then killChildren_loop (pids[i := 0]) (i + 1) (out @ [Kill (pids ! i)])
         else killChildren_loop pids (i + 1) out)
      else (out, pids))"
  by pat_completeness auto

termination
  by (relation "measure (\<lambda>(pids, i, out). BGPID_ARR_SIZE - i)") auto

declare killChildren_loop.simps [simp del]

definition killChildren :: "int list \<Rightarrow> event list \<times> int list" where
  "killChildren pids = killChildren_loop pids 0 []"

text \<open>
  The status macros of \<^verbatim>\<open><sys/wait.h>\<close>, as the C library of the target platform
  defines them on the status word.
\<close>

definition WTERMSIG :: "int \<Rightarrow> int" where
  "WTERMSIG status = take_bit 7 status"

definition WEXITSTATUS :: "int \<Rightarrow> int" where
  "WEXITSTATUS status = take_bit 8 (drop_bit 8 status)"

definition WIFEXITED :: "int \<Rightarrow> bool" where
  "WIFEXITED status = (WTERMSIG status = 0)"

definition WIFSIGNALED :: "int \<Rightarrow> bool" where
  "WIFSIGNALED status = (WTERMSIG status \<noteq> 0 \<and> WTERMSIG status \<noteq> 127)"

definition report :: "int \<Rightarrow> event" where
  "report status =
     (if WIFEXITED status then Printf (''exit value '' @ decimal (WEXITSTATUS status) @ ''\<newline>'')
      else Printf (''terminated by signal '' @ decimal (WTERMSIG status) @ ''\<newline>''))"

text \<open>
  \<^verbatim>\<open>resolveBGPID\<close>. The kernel's side of \<^verbatim>\<open>waitpid(pid, &stat, WNOHANG)\<close>
  during one pass is the function \<open>wp\<close>: for a process identifier the value returned (0
  while the child runs) and the status written, if one is. The local \<^verbatim>\<open>stat\<close> is not
  initialised, so its first value is an argument.
\<close>

function resolveBGPID_loop ::
  "(int \<Rightarrow> int \<times> int option) \<Rightarrow> int list \<Rightarrow> nat \<Rightarrow> int \<Rightarrow> event list
    \<Rightarrow> event list \<times> int list" where
  "resolveBGPID_loop wp pids i stat out =
     (if i < BGPID_ARR_SIZE then
        (if pids ! i \<noteq> 0 then
           (let stat' = (case snd (wp (pids ! i)) of None \<Rightarrow> stat | Some v \<Rightarrow> v)
            in if fst (wp (pids ! i)) \<noteq> 0 then
                 resolveBGPID_loop wp (pids[i := 0]) (i + 1) stat'
                   (out @ [Printf (''background pid '' @ decimal (pids ! i) @ '' is done: ''),
                           report stat'])
               else resolveBGPID_loop wp pids (i + 1) stat' out)
         else resolveBGPID_loop wp pids (i + 1) stat out)
      else (out, pids))"
  by pat_completeness auto

termination
  by (relation "measure (\<lambda>(wp, pids, i, stat, out). BGPID_ARR_SIZE - i)") auto

declare resolveBGPID_loop.simps [simp del]

definition resolveBGPID :: "(int \<Rightarrow> int \<times> int option) \<Rightarrow> int \<Rightarrow> int list \<Rightarrow> event list \<times> int list" where
  "resolveBGPID wp stat pids = resolveBGPID_loop wp pids 0 stat []"

section \<open>Mode flags and input acquisition\<close>

definition catchSIGTSTP :: "globals \<Rightarrow> globals" where
  "catchSIGTSTP gl =
     (if disallow_background gl \<noteq> 0 then gl\<lparr>disallow_background := 0\<rparr>
      else gl\<lparr>disallow_background := 1\<rparr>)\<lparr>background_inform := 1\<rparr>"

text \<open>
  SIGTSTP may be delivered between any two steps of the shell, and the handler then runs
  before the next step. Only \<^verbatim>\<open>backgroundInform\<close> and \<^verbatim>\<open>parseCommand\<close> look at
  the two flags the handler writes, so what a run does is fixed by how many signals are
  handled before each of these looks. For \<^verbatim>\<open>backgroundInform\<close> these are the signals
  handled before the first test reads \<^verbatim>\<open>background_inform\<close>, between the two reads of
  the first test, before and within the second test, and before the assignment that
  clears \<^verbatim>\<open>background_inform\<close>.
\<close>

record arrivals =
  before_test1 :: nat
  within_test1 :: nat
  before_test2 :: nat
  within_test2 :: nat
  before_clear :: nat

definition backgroundInform :: "arrivals \<Rightarrow> globals \<Rightarrow> event list \<times> globals" where
  "backgroundInform a gl =
     (let gl1 = (catchSIGTSTP ^^ before_test1 a) gl;
          gl2 = (catchSIGTSTP ^^ within_test1 a) gl1;
          gl3 = (catchSIGTSTP ^^ before_test2 a) gl2;
          gl4 = (catchSIGTSTP ^^ within_test2 a) gl3;
          gl5 = (catchSIGTSTP ^^ before_clear a) gl4
      in ((if background_inform gl1 \<noteq> 0 \<and> disallow_background gl2 \<noteq> 0
           then [Printf ''Entering foreground-only mode (& is now ignored)\<newline>'']
           else if background_inform gl3 \<noteq> 0 \<and> \<not> disallow_background gl4 \<noteq> 0
           then [Printf ''Exiting foreground-only mode\<newline>'']
           else []),
          gl5\<lparr>background_inform := 0\<rparr>))"

text \<open>
  What one turn of the loop of \<^verbatim>\<open>getCommand\<close> meets: the signals handled within
  \<^verbatim>\<open>backgroundInform\<close>, the answers of \<^verbatim>\<open>waitpid\<close> during the pass over the
  table, the first value of that pass's \<^verbatim>\<open>stat\<close>, the number of signals handled from
  the end of \<^verbatim>\<open>backgroundInform\<close> until the prompt is printed, the number handled
  while \<^verbatim>\<open>getline\<close> waits and until the flags are looked at again (the handler is
  installed with \<^verbatim>\<open>SA_RESTART\<close>, so the read goes on), and what \<^verbatim>\<open>getline\<close>
  delivers: nothing (it returns -1) or the bytes it has read, whose number it returns.
\<close>

record cycle =
  inform :: arrivals
  poll :: "int \<Rightarrow> int \<times> int option"
  stat0 :: int
  sig_resolve :: nat
  sigtstp :: nat
  getline :: "string option"

text \<open>
  The statements of the loop body up to the prompt; the globals returned are those in
  force when the prompt is printed.
\<close>

definition prompt_cycle :: "cycle \<Rightarrow> int list \<Rightarrow> globals \<Rightarrow> event list \<times> int list \<times> globals" where
  "prompt_cycle c pids gl =
     (case backgroundInform (inform c) gl of
        (out1, gl1) \<Rightarrow>
          (case resolveBGPID (poll c) (stat0 c) pids of
             (out2, pids1) \<Rightarrow>
               (out1 @ out2 @ [Printf '': ''], pids1, (catchSIGTSTP ^^ sig_resolve c) gl1)))"

text \<open>
  The test that leaves the loop: \<^verbatim>\<open>(*userInput)[0] != '#' && numChars > 1\<close>.
\<close>

definition accepted :: "string \<Rightarrow> bool" where
  "accepted raw = ((case raw of [] \<Rightarrow> True | ch # _ \<Rightarrow> ch \<noteq> CHR ''#'') \<and> 1 < int (length raw))"

text \<open>
  \<^verbatim>\<open>(*userInput)[strlen(*userInput) - 1] = '\0'\<close>: the last character before the
  first NUL is cut off. With no character before it the index is outside the buffer.
\<close>

definition chop :: "string \<Rightarrow> halt + string" where
  "chop raw =
     (let s = takeWhile (\<lambda>ch. ch \<noteq> CHR 0x00) raw
      in if s = [] then Inl OutOfBounds else Inr (butlast s))"

text \<open>
  \<^verbatim>\<open>getCommand\<close> over the turns it is given. It returns the line, the turns not
  used, the table and the globals; with no turn left it is still waiting for input and has
  not returned.
\<close>

fun getCommand ::
  "cycle list \<Rightarrow> int list \<Rightarrow> globals
    \<Rightarrow> (event list \<times> (halt + string \<times> cycle list \<times> int list \<times> globals)) option" where
  "getCommand [] pids gl = None"
| "getCommand (c # cs) pids gl =
     (case prompt_cycle c pids gl of
        (out, pids1, gl1) \<Rightarrow>
          (let gl2 = (catchSIGTSTP ^^ sigtstp c) gl1
           in case getline c of
                None \<Rightarrow>
                  (case getCommand cs pids1 gl2 of
                     None \<Rightarrow> None
                   | Some (out', r) \<Rightarrow> Some (out @ out', r))
              | Some raw \<Rightarrow>
                  if accepted raw then
                    (case chop raw of
                       Inl h \<Rightarrow> Some (out, Inl h)
                     | Inr userInput \<Rightarrow> Some (out, Inr (userInput, cs, pids1, gl2)))
                  else
                    (case getCommand cs pids1 gl2 of
                       None \<Rightarrow> None
                     | Some (out', r) \<Rightarrow> Some (out @ out', r))))"

section \<open>Built-in commands, execution and the session loop\<close>

definition statusShell :: "int \<Rightarrow> globals \<Rightarrow> event list \<times> globals" where
  "statusShell lastStat gl = ([report lastStat], gl\<lparr>background := 0\<rparr>)"

text \<open>
  \<^verbatim>\<open>cdShell\<close> copies \<^verbatim>\<open>getenv("HOME")\<close> (the argument \<open>home\<close>) or
  \<^verbatim>\<open>args[1]\<close> into the \<^const>\<open>PATH_STR_SZ\<close> bytes of \<^verbatim>\<open>path\<close>.
\<close>

definition cdShell :: "string option \<Rightarrow> ptr list \<Rightarrow> int \<Rightarrow> globals \<Rightarrow> event list \<times> (halt + globals)" where
  "cdShell home args argCount gl =
     (case (if argCount = 1 then (case home of None \<Rightarrow> Inl NullPointer | Some h \<Rightarrow> Inr h)
            else (case array_load args 1 of Inl h \<Rightarrow> Inl h | Inr p \<Rightarrow> c_str gl p)) of
        Inl h \<Rightarrow> ([], Inl h)
      | Inr src \<Rightarrow>
          if length src < PATH_STR_SZ then ([Chdir src], Inr (gl\<lparr>background := 0\<rparr>))
          else ([], Inl BufferOverflow))"

definition exitShell :: "int list \<Rightarrow> globals \<Rightarrow> event list \<times> int list \<times> globals" where
  "exitShell bgPIDs gl =
     (case killChildren bgPIDs of (out, bgPIDs') \<Rightarrow> (out, bgPIDs', gl\<lparr>background := 0\<rparr>))"

text \<open>
  \<^verbatim>\<open>execChild\<close> runs in the child and never comes back: the child exits with 1 or
  its image is replaced. \<open>can_read\<close> and \<open>can_write\<close> say which paths the two calls
  of \<^verbatim>\<open>open\<close> accept, \<open>can_exec\<close> whether \<^verbatim>\<open>execvp\<close> succeeds. The text
  \<^verbatim>\<open>perror\<close> is given is empty for \<^verbatim>\<open>NULL\<close>.
\<close>

definition text_of :: "globals \<Rightarrow> ptr \<Rightarrow> string" where
  "text_of gl p = (case c_str gl p of Inl h \<Rightarrow> [] | Inr s \<Rightarrow> s)"

definition execChild ::
  "(string \<Rightarrow> bool) \<Rightarrow> (string \<Rightarrow> bool) \<Rightarrow> bool \<Rightarrow> ptr list \<Rightarrow> ptr list \<Rightarrow> globals
    \<Rightarrow> event list \<times> halt" where
  "execChild can_read can_write can_exec redir args gl =
     (if redir ! 0 \<noteq> Null \<and> \<not> can_read (text_of gl (redir ! 0))
      then ([Perror (text_of gl (redir ! 0))], Exit 1)
      else if redir ! 1 \<noteq> Null \<and> \<not> can_write (text_of gl (redir ! 1))
      then ([Perror (text_of gl (redir ! 1))], Exit 1)
      else if can_exec then ([], Execed)
      else ([Perror (text_of gl (args ! 0))], Exit 1))"

text \<open>
  \<^verbatim>\<open>execParent\<close>: \<open>waited\<close> is the status the blocking
  \<^verbatim>\<open>waitpid(spawnpid, lastStat, 0)\<close> writes, if it writes one.
\<close>

definition execParent ::
  "int option \<Rightarrow> int \<Rightarrow> int list \<Rightarrow> int \<Rightarrow> globals \<Rightarrow> event list \<times> (halt + int list \<times> int)" where
  "execParent waited spawnpid backgroundPIDs lastStat gl =
     (if \<not> background gl \<noteq> 0 then
        (let lastStat' = (case waited of None \<Rightarrow> lastStat | Some v \<Rightarrow> v)
         in ((if WIFSIGNALED lastStat'
              then [Printf (''terminated by signal '' @ decimal (WTERMSIG lastStat') @ ''\<newline>'')]
              else []),
             Inr (backgroundPIDs, lastStat')))
      else
        (case placePID backgroundPIDs spawnpid of
           (out, Inl h) \<Rightarrow> (out, Inl h)
         | (out, Inr bgPIDs') \<Rightarrow>
             (out @ [Printf (''background pid is '' @ decimal spawnpid @ ''\<newline>'')],
              Inr (bgPIDs', lastStat))))"

definition scrubIO :: "ptr list \<Rightarrow> int \<Rightarrow> int \<Rightarrow> ptr list \<times> int \<times> int" where
  "scrubIO redir inputFile outputFile =
     (redir[0 := Null, 1 := Null],
      (if inputFile \<noteq> - 5 then - 5 else inputFile),
      (if outputFile \<noteq> - 5 then - 5 else outputFile))"

function cleanup_loop :: "ptr list \<Rightarrow> int \<Rightarrow> int \<Rightarrow> halt + ptr list" where
  "cleanup_loop args argCount i =
     (if i < argCount then
        (case array_store args i Null of
           Inl h \<Rightarrow> Inl h
         | Inr args' \<Rightarrow> cleanup_loop args' argCount (i + 1))
      else Inr args)"
  by pat_completeness auto

termination
  by (relation "measure (\<lambda>(args, argCount, i). nat (argCount - i))") auto

declare cleanup_loop.simps [simp del]

definition cleanup :: "ptr list \<Rightarrow> int \<Rightarrow> globals \<Rightarrow> halt + ptr list \<times> globals" where
  "cleanup args argCount gl =
     (case cleanup_loop args argCount 0 of
        Inl h \<Rightarrow> Inl h
      | Inr args' \<Rightarrow> Inr (args', gl\<lparr>background := 0, pidString := []\<rparr>))"

text \<open>The variables of \<^verbatim>\<open>main\<close> that live across turns of its loop, and the globals.\<close>

record shell =
  gl :: globals
  args :: "ptr list"
  redir :: "ptr list"
  argCount :: int
  lastStat :: int
  outputFile :: int
  inputFile :: int
  spawnpid :: int
  backgroundPIDs :: "int list"

text \<open>
  What one turn of the loop of \<^verbatim>\<open>main\<close> meets: the turns of
  \<^verbatim>\<open>getCommand\<close>, the value of \<^verbatim>\<open>HOME\<close>, what \<^verbatim>\<open>fork\<close> returns, the
  status of the foreground child, and in the child what can be opened and executed.
\<close>

record turn =
  cycles :: "cycle list"
  home :: "string option"
  forked :: int
  waited :: "int option"
  can_read :: "string \<Rightarrow> bool"
  can_write :: "string \<Rightarrow> bool"
  can_exec :: bool

text \<open>
  The state in which \<^verbatim>\<open>main\<close> enters its loop: the globals as initialised,
  \<^verbatim>\<open>args\<close> and \<^verbatim>\<open>redir\<close> with whatever the stack holds, the table scrubbed.
\<close>

definition initial_shell :: "ptr list \<Rightarrow> ptr list \<Rightarrow> int list \<Rightarrow> shell" where
  "initial_shell stack_args stack_redir stack_pids =
     \<lparr>gl = initial_globals, args = stack_args, redir = stack_redir, argCount = 0,
      lastStat = - 5, outputFile = - 5, inputFile = - 5, spawnpid = - 5,
      backgroundPIDs = scrubPIDArray stack_pids\<rparr>"

text \<open>
  The dispatch on \<^verbatim>\<open>args[0]\<close> and the \<^verbatim>\<open>cleanup\<close> behind it. \<^verbatim>\<open>exit\<close>
  leaves the loop and \<^verbatim>\<open>main\<close> returns 0.
\<close>

definition dispatch :: "int \<Rightarrow> turn \<Rightarrow> shell \<Rightarrow> event list \<times> (halt + shell)" where
  "dispatch pid t s =
     (case array_load (args s) 0 of
        Inl h \<Rightarrow> ([], Inl h)
      | Inr p \<Rightarrow>
          (case c_str (gl s) p of
             Inl h \<Rightarrow> ([], Inl h)
           | Inr cmd \<Rightarrow>
               if cmd = ''exit'' then
                 (case exitShell (backgroundPIDs s) (gl s) of
                    (out, bgPIDs', gl') \<Rightarrow> (out, Inl (Exit 0)))
               else
                 (case (if cmd = ''status'' then
                          (case statusShell (lastStat s) (gl s) of
                             (out, gl') \<Rightarrow> (out, Inr (s\<lparr>gl := gl'\<rparr>)))
                        else if cmd = ''cd'' then
                          (case cdShell (home t) (args s) (argCount s) (gl s) of
                             (out, Inl h) \<Rightarrow> (out, Inl h)
                           | (out, Inr gl') \<Rightarrow> (out, Inr (s\<lparr>gl := gl'\<rparr>)))
                        else if forked t = - 1 then ([Perror ''Fork() problem!''], Inl (Exit 1))
                        else if forked t = 0 then
                          (case execChild (can_read t) (can_write t) (can_exec t) (redir s) (args s) (gl s) of
                             (out, h) \<Rightarrow> (out, Inl h))
                        else
                          (case execParent (waited t) (forked t) (backgroundPIDs s) (lastStat s) (gl s) of
                             (out, Inl h) \<Rightarrow> (out, Inl h)
                           | (out, Inr (bgPIDs', lastStat')) \<Rightarrow>
                               (out, Inr (s\<lparr>spawnpid := forked t, backgroundPIDs := bgPIDs',
                                            lastStat := lastStat'\<rparr>)))) of
                    (out, Inl h) \<Rightarrow> (out, Inl h)
                  | (out, Inr s') \<Rightarrow>
                      (case cleanup (args s') (argCount s') (gl s') of
                         Inl h \<Rightarrow> (out, Inl h)
                       | Inr (args', gl') \<Rightarrow> (out, Inr (s'\<lparr>args := args', gl := gl'\<rparr>))))))"

text \<open>
  One turn of the loop of \<^verbatim>\<open>main\<close>: \<^verbatim>\<open>scrubIO\<close>, \<^verbatim>\<open>getCommand\<close>,
  \<^verbatim>\<open>parseCommand\<close> and the dispatch. The result is missing when
  \<^verbatim>\<open>getCommand\<close> has not returned.
\<close>

definition main_turn :: "int \<Rightarrow> turn \<Rightarrow> shell \<Rightarrow> (event list \<times> (halt + shell)) option" where
  "main_turn pid t s =
     (case scrubIO (redir s) (inputFile s) (outputFile s) of
        (redir0, inputFile0, outputFile0) \<Rightarrow>
          (case getCommand (cycles t) (backgroundPIDs s) (gl s) of
             None \<Rightarrow> None
           | Some (out, Inl h) \<Rightarrow> Some (out, Inl h)
           | Some (out, Inr (userInput, rest, bgPIDs1, gl1)) \<Rightarrow>
               (case parseCommand pid userInput (args s) redir0 gl1 of
                  Inl h \<Rightarrow> Some (out, Inl h)
                | Inr (argCount2, args2, redir2, gl2) \<Rightarrow>
                    (case dispatch pid t
                            (s\<lparr>gl := gl2, args := args2, redir := redir2, argCount := argCount2,
                               inputFile := inputFile0, outputFile := outputFile0,
                               backgroundPIDs := bgPIDs1\<rparr>) of
                       (out', r) \<Rightarrow> Some (out @ out', r)))))"

text \<open>
  The states in which the loop of \<^verbatim>\<open>main\<close> can begin a turn: the first one, the one
  a completed turn leaves, and any of these after a SIGTSTP has been handled.
\<close>

inductive loop_head :: "int \<Rightarrow> shell \<Rightarrow> bool" for pid :: int where
  start:
    "length stack_args = NUM_ARGS \<Longrightarrow> length stack_redir = 2
      \<Longrightarrow> length stack_pids = BGPID_ARR_SIZE
      \<Longrightarrow> loop_head pid (initial_shell stack_args stack_redir stack_pids)"
| turn: "loop_head pid s \<Longrightarrow> main_turn pid t s = Some (out, Inr s') \<Longrightarrow> loop_head pid s'"
| signal: "loop_head pid s \<Longrightarrow> loop_head pid (s\<lparr>gl := catchSIGTSTP (gl s)\<rparr>)"

section \<open>Tokens, arguments and redirections of a line\<close>

text \<open>
  The tokens \<^verbatim>\<open>strtok\<close> yields on a line, one call after the other, until it finds
  none.
\<close>

function tokens :: "string \<Rightarrow> string list" where
  "tokens s = (case strtok s of (None, r) \<Rightarrow> [] | (Some t, r) \<Rightarrow> t # tokens r)"
  by pat_completeness auto

termination
  by (relation "measure length") (auto dest: strtok_save_less [OF sym])

declare tokens.simps [simp del]

text \<open>The tokens still to come in a state of the loop: the current one and those behind it.\<close>

definition toks_of :: "string option \<times> string \<Rightarrow> string list" where
  "toks_of ts = (case fst ts of None \<Rightarrow> [] | Some t \<Rightarrow> t # tokens (snd ts))"

text \<open>
  The tokens that become arguments: all but the operators \<^verbatim>\<open><\<close> and \<^verbatim>\<open>>\<close> and
  the token each of them takes as its target.
\<close>

fun arg_toks :: "string list \<Rightarrow> string list" where
  "arg_toks [] = []"
| "arg_toks [t] = (if t = ''<'' \<or> t = ''>'' then [] else [t])"
| "arg_toks (t # u # ts) =
     (if t = ''<'' \<or> t = ''>'' then arg_toks ts else t # arg_toks (u # ts))"

text \<open>The redirection slots after the tokens have been scanned.\<close>

fun redirs :: "string list \<Rightarrow> ptr list \<Rightarrow> ptr list" where
  "redirs [] r = r"
| "redirs [t] r = (if t = ''<'' then r[0 := Null] else if t = ''>'' then r[1 := Null] else r)"
| "redirs (t # u # ts) r =
     (if t = ''<'' then redirs ts (r[0 := Tok u])
      else if t = ''>'' then redirs ts (r[1 := Tok u])
      else redirs (u # ts) r)"

text \<open>
  The pointer stored for an argument token, the contents of \<^verbatim>\<open>pidString\<close> after the
  token has been handled, and the text of the argument when \<^verbatim>\<open>pidString\<close> holds
  \<open>buf\<close>.
\<close>

definition arg_ptr :: "string \<Rightarrow> ptr" where
  "arg_ptr t = (case strstr t ''$$'' of None \<Rightarrow> Tok t | Some i \<Rightarrow> PidString)"

definition expand :: "int \<Rightarrow> string \<Rightarrow> string \<Rightarrow> string" where
  "expand pid b t = (case strstr t ''$$'' of None \<Rightarrow> b | Some i \<Rightarrow> take i t @ decimal pid)"

definition arg_text :: "string \<Rightarrow> string \<Rightarrow> string" where
  "arg_text buf t = (case strstr t ''$$'' of None \<Rightarrow> t | Some i \<Rightarrow> buf)"

text \<open>
  Every expansion among the tokens fits into \<^verbatim>\<open>pidString\<close>: the text before the
  marker, the digits and the NUL take at most \<^const>\<open>PIDSTRING_SZ\<close> bytes.
\<close>

definition fits :: "int \<Rightarrow> string list \<Rightarrow> bool" where
  "fits pid as = (\<forall>t \<in> set as. case strstr t ''$$'' of None \<Rightarrow> True
                     | Some i \<Rightarrow> i + length (decimal pid) < PIDSTRING_SZ)"

text \<open>The arguments without a final \<^verbatim>\<open>&\<close>.\<close>

definition strip_amp :: "string list \<Rightarrow> string list" where
  "strip_amp as = (if last as = ''&'' then butlast as else as)"

text \<open>
  Splitting a line at its spaces, as the specification describes the token list: the line
  is read character by character, a space ends the current word, and empty words are
  dropped.
\<close>

fun split_acc :: "string \<Rightarrow> string \<Rightarrow> string list" where
  "split_acc w [] = (if w = [] then [] else [w])"
| "split_acc w (c # cs) =
     (if c = CHR '' '' then (if w = [] then split_acc [] cs else w # split_acc [] cs)
      else split_acc (w @ [c]) cs)"

definition split_on_space :: "string \<Rightarrow> string list" where
  "split_on_space line = split_acc [] line"

section \<open>Reports of the job table and example environments\<close>

text \<open>The first line \<^verbatim>\<open>resolveBGPID\<close> prints for a finished process.\<close>

definition done_header :: "int \<Rightarrow> event" where
  "done_header p = Printf (''background pid '' @ decimal p @ '' is done: '')"

text \<open>
  Several calls of \<^verbatim>\<open>resolveBGPID\<close> one after the other, each with the answers of
  \<^verbatim>\<open>waitpid\<close> and the first value of \<^verbatim>\<open>stat\<close> it meets.
\<close>

fun resolve_many :: "((int \<Rightarrow> int \<times> int option) \<times> int) list \<Rightarrow> int list \<Rightarrow> event list \<times> int list" where
  "resolve_many [] pids = ([], pids)"
| "resolve_many (w # ws) pids =
     (case resolveBGPID (fst w) (snd w) pids of
        (out, pids') \<Rightarrow> (case resolve_many ws pids' of (out', pids'') \<Rightarrow> (out @ out', pids'')))"



text \<open>
  Environments for the examples: a kernel for which every child still runs, one for which
  every child has exited with status 0, and one for which only process 42 has; a run of
  \<^verbatim>\<open>backgroundInform\<close> during which no signal is handled; a turn of
  \<^verbatim>\<open>getCommand\<close> and of \<^verbatim>\<open>main\<close> in which one line is read; two turns of
  \<^verbatim>\<open>getCommand\<close>, a comment line and then a command, with process 42 finished by the
  second; the shell at
  its start, with \<^verbatim>\<open>NULL\<close> in every slot of \<^verbatim>\<open>args\<close> and \<^verbatim>\<open>redir\<close>.
\<close>

definition no_child_done :: "int \<Rightarrow> int \<times> int option" where
  "no_child_done p = (0, None)"

definition all_done :: "int \<Rightarrow> int \<times> int option" where
  "all_done p = (p, Some 0)"


definition no_arrivals :: arrivals where
  "no_arrivals =
     \<lparr>before_test1 = 0, within_test1 = 0, before_test2 = 0, within_test2 = 0, before_clear = 0\<rparr>"

definition one_line_cycle :: "string \<Rightarrow> cycle" where
  "one_line_cycle raw =
     \<lparr>inform = no_arrivals, poll = no_child_done, stat0 = 0, sig_resolve = 0, sigtstp = 0,
      getline = Some raw\<rparr>"


definition one_line_turn :: "string \<Rightarrow> int \<Rightarrow> turn" where
  "one_line_turn raw f =
     \<lparr>cycles = [one_line_cycle raw], home = None, forked = f, waited = Some 0,
      can_read = (\<lambda>p. True), can_write = (\<lambda>p. True), can_exec = True\<rparr>"

definition fresh_shell :: shell where
  "fresh_shell = initial_shell (replicate 513 Null) [Null, Null] (replicate 20 0)"


section \<open>Lemmas\<close>

subsection \<open>The loop of parseCommand over the tokens\<close>

lemma strtok_Nil [simp]: "strtok [] = (None, [])"
  by (simp add: strtok_def)

lemma toks_of_strtok: "toks_of (strtok s) = tokens s"
proof (cases "strtok s")
  case (Pair a r)
  then show ?thesis
    by (cases a) (simp_all add: toks_of_def tokens.simps [of s])
qed

lemma strtok_None: "fst (strtok s) = None \<Longrightarrow> snd (strtok s) = []"
  by (simp add: strtok_def Let_def split: if_splits)

lemma tokens_Nil [simp]: "tokens [] = []"
  by (simp add: tokens.simps [of "[]"])

lemma toks_of_strtok2: "toks_of (strtok (snd (strtok s))) = drop 1 (tokens s)"
proof (cases "strtok s")
  case (Pair a r)
  show ?thesis
  proof (cases a)
    case None
    with Pair strtok_None [of s] have "r = []" by simp
    with Pair None show ?thesis
      by (simp add: tokens.simps [of s] toks_of_def)
  next
    case (Some t)
    with Pair show ?thesis
      by (simp add: tokens.simps [of s] toks_of_strtok)
  qed
qed

lemma arg_toks_Cons:
  "arg_toks (t # ts) = (if t = ''<'' \<or> t = ''>'' then arg_toks (drop 1 ts) else t # arg_toks ts)"
  by (cases ts) auto

lemma redirs_Cons:
  "redirs (t # ts) r =
     (if t = ''<'' then redirs (drop 1 ts) (r[0 := (case ts of [] \<Rightarrow> Null | u # _ \<Rightarrow> Tok u)])
      else if t = ''>'' then redirs (drop 1 ts) (r[1 := (case ts of [] \<Rightarrow> Null | u # _ \<Rightarrow> Tok u)])
      else redirs ts r)"
  by (cases ts) auto

lemma fst_strtok_tokens:
  "(case fst (strtok s) of None \<Rightarrow> Null | Some t \<Rightarrow> Tok t) =
   (case tokens s of [] \<Rightarrow> Null | u # _ \<Rightarrow> Tok u)"
proof (cases "strtok s")
  case (Pair a r)
  then show ?thesis
    by (cases a) (simp_all add: tokens.simps [of s])
qed

lemma strstr_lt [simp]: "strstr ''<'' ''$$'' = None" "strstr ''>'' ''$$'' = None"
  by simp_all

lemma length_redirs [simp]: "length (redirs ts r) = length r"
  by (induction ts r rule: redirs.induct) auto

lemma parse_loop_tokens:
  assumes "length av = N" "length rv = 2"
    and "n + length (arg_toks (toks_of st)) \<le> N"
    and "fits pid (arg_toks (toks_of st))"
  shows "parse_loop pid st av rv (int n) g =
           Inr (take n av @ map arg_ptr (arg_toks (toks_of st))
                  @ drop (n + length (arg_toks (toks_of st))) av,
                redirs (toks_of st) rv,
                int (n + length (arg_toks (toks_of st))),
                g\<lparr>pidString := foldl (expand pid) (pidString g) (arg_toks (toks_of st))\<rparr>)"
  using assms
proof (induction pid st av rv "int n" g arbitrary: n rule: parse_loop.induct)
  case (1 pid save av rv g)
  then show ?case by (simp add: toks_of_def)
next
  case (2 pid token save av rv g)
  have ts: "toks_of (Some token, save) = token # tokens save"
    by (simp add: toks_of_def)
  show ?case
  proof (cases "strstr token ''$$''")
    case (Some i)
    then have ne: "token \<noteq> ''<''" "token \<noteq> ''>''" by auto
    have at: "arg_toks (token # tokens save) = token # arg_toks (tokens save)"
      by (simp add: arg_toks_Cons ne)
    have rd: "redirs (token # tokens save) rv = redirs (tokens save) rv"
      by (simp add: redirs_Cons ne)
    from "2.prems" have lt: "n < length av" and fit: "i + length (decimal pid) < PIDSTRING_SZ"
      and fits': "fits pid (arg_toks (tokens save))"
      by (auto simp: ts at fits_def Some)
    have sp: "sprintf_pidString (take i token) pid = Inr (take i token @ decimal pid)"
      using fit Some by (auto simp: sprintf_pidString_def Let_def)
    have st: "array_store av (int n) PidString = Inr (av[n := PidString])"
      using lt by (simp add: array_store_def)
    have IH: "parse_loop pid (strtok save) (av[n := PidString]) rv (int (Suc n))
                (g\<lparr>pidString := take i token @ decimal pid\<rparr>) = 
           Inr (take (Suc n) (av[n := PidString]) @ map arg_ptr (arg_toks (tokens save))
                  @ drop (Suc n + length (arg_toks (tokens save))) (av[n := PidString]),
                redirs (tokens save) rv,
                int (Suc n + length (arg_toks (tokens save))),
                g\<lparr>pidString := foldl (expand pid) (take i token @ decimal pid) (arg_toks (tokens save))\<rparr>)"
      using "2.hyps"(4) [OF Some sp st, of "Suc n"] "2.prems" fits'
      by (simp add: toks_of_strtok ts at)
    have tk: "take (Suc n) (av[n := PidString]) = take n av @ [PidString]"
      using lt by (simp add: take_Suc_conv_app_nth)
    show ?thesis
      using IH lt
      by (simp add: ts at rd Some sp st tk arg_ptr_def expand_def add.commute)
  next
    case None
    consider (inp) "token = ''<''" | (outp) "token \<noteq> ''<''" "token = ''>''"
      | (plain) "token \<noteq> ''<''" "token \<noteq> ''>''" by blast
    then show ?thesis
    proof cases
      case inp
      have at: "arg_toks (token # tokens save) = arg_toks (drop 1 (tokens save))"
        by (simp add: arg_toks_Cons inp)
      define q where "q = (case fst (strtok save) of None \<Rightarrow> Null | Some t \<Rightarrow> Tok t)"
      have rd: "redirs (token # tokens save) rv = redirs (drop 1 (tokens save)) (rv[0 := q])"
        by (simp add: redirs_Cons inp q_def fst_strtok_tokens)
      have st: "array_store rv 0 q = Inr (rv[0 := q])"
        using "2.prems" by (simp add: array_store_def)
      have IH: "parse_loop pid (strtok (snd (strtok save))) av (rv[0 := q]) (int n) g =
           Inr (take n av @ map arg_ptr (arg_toks (drop 1 (tokens save)))
                  @ drop (n + length (arg_toks (drop 1 (tokens save)))) av,
                redirs (drop 1 (tokens save)) (rv[0 := q]),
                int (n + length (arg_toks (drop 1 (tokens save)))),
                g\<lparr>pidString := foldl (expand pid) (pidString g) (arg_toks (drop 1 (tokens save)))\<rparr>)"
        using "2.hyps"(1) [OF None inp st [unfolded q_def], of n] "2.prems"
        by (simp add: toks_of_strtok2 ts at q_def)
      show ?thesis
        using IH None st
        by (simp add: ts [unfolded inp] at [unfolded inp] rd [unfolded inp] inp q_def)
    next
      case outp
      have at: "arg_toks (token # tokens save) = arg_toks (drop 1 (tokens save))"
        by (simp add: arg_toks_Cons outp)
      define q where "q = (case fst (strtok save) of None \<Rightarrow> Null | Some t \<Rightarrow> Tok t)"
      have rd: "redirs (token # tokens save) rv = redirs (drop 1 (tokens save)) (rv[1 := q])"
        by (simp add: redirs_Cons outp q_def fst_strtok_tokens)
      have st: "array_store rv 1 q = Inr (rv[1 := q])"
        using "2.prems" by (simp add: array_store_def)
      have IH: "parse_loop pid (strtok (snd (strtok save))) av (rv[1 := q]) (int n) g =
           Inr (take n av @ map arg_ptr (arg_toks (drop 1 (tokens save)))
                  @ drop (n + length (arg_toks (drop 1 (tokens save)))) av,
                redirs (drop 1 (tokens save)) (rv[1 := q]),
                int (n + length (arg_toks (drop 1 (tokens save)))),
                g\<lparr>pidString := foldl (expand pid) (pidString g) (arg_toks (drop 1 (tokens save)))\<rparr>)"
        using "2.hyps"(2) [OF None outp st [unfolded q_def], of n] "2.prems"
        by (simp add: toks_of_strtok2 ts at q_def)
      show ?thesis
        using IH None st
        by (simp add: ts [unfolded outp] at [unfolded outp] rd [unfolded outp] outp q_def)
    next
      case plain
      have at: "arg_toks (token # tokens save) = token # arg_toks (tokens save)"
        by (simp add: arg_toks_Cons plain)
      have rd: "redirs (token # tokens save) rv = redirs (tokens save) rv"
        by (simp add: redirs_Cons plain)
      from "2.prems" have lt: "n < length av"
        and fits': "fits pid (arg_toks (tokens save))"
        by (auto simp: ts at fits_def)
      have st: "array_store av (int n) (Tok token) = Inr (av[n := Tok token])"
        using lt by (simp add: array_store_def)
      have IH: "parse_loop pid (strtok save) (av[n := Tok token]) rv (int (Suc n)) g =
           Inr (take (Suc n) (av[n := Tok token]) @ map arg_ptr (arg_toks (tokens save))
                  @ drop (Suc n + length (arg_toks (tokens save))) (av[n := Tok token]),
                redirs (tokens save) rv,
                int (Suc n + length (arg_toks (tokens save))),
                g\<lparr>pidString := foldl (expand pid) (pidString g) (arg_toks (tokens save))\<rparr>)"
        using "2.hyps"(3) [OF None plain st, of "Suc n"] "2.prems" fits'
        by (simp add: toks_of_strtok ts at)
      have tk: "take (Suc n) (av[n := Tok token]) = take n av @ [Tok token]"
        using lt by (simp add: take_Suc_conv_app_nth)
      show ?thesis
        using IH lt plain
        by (simp add: ts at rd None st tk arg_ptr_def expand_def add.commute)
    qed
  qed
qed

subsection \<open>The call of parseCommand\<close>

lemma digits_last: "digits n \<noteq> [] \<and> last (digits n) = ''0123456789'' ! (n mod 10)"
  by (subst (1 2) digits.simps) simp

lemma digit_char: "d < 10 \<Longrightarrow> ''0123456789'' ! d \<in> set ''0123456789''"
  by (rule nth_mem) simp

lemma decimal_last: "decimal i \<noteq> [] \<and> last (decimal i) \<in> set ''0123456789''"
proof -
  have "last (digits n) \<in> set ''0123456789''" for n
    using digits_last [of n] digit_char [of "n mod 10"] by simp
  then show ?thesis
    using digits_last by (simp add: decimal_def)
qed

lemma expansion_not_amp: "p @ decimal i \<noteq> ''&''"
proof
  assume "p @ decimal i = ''&''"
  then have "last (p @ decimal i) = CHR ''&''" by simp
  then have "last (decimal i) = CHR ''&''"
    using decimal_last [of i] by simp
  then show False
    using decimal_last [of i] by auto
qed

lemma foldl_expand_last:
  assumes "strstr t ''$$'' = Some i" and "\<forall>y \<in> set ys. strstr y ''$$'' = None"
  shows "foldl (expand pid) b (xs @ t # ys) = take i t @ decimal pid"
proof -
  have "foldl (expand pid) c ys = c" for c
    using assms(2) by (induction ys arbitrary: c) (auto simp: expand_def)
  then show ?thesis
    using assms(1) by (simp add: expand_def)
qed

lemma foldl_expand_none:
  assumes "\<forall>y \<in> set ys. strstr y ''$$'' = None"
  shows "foldl (expand pid) b ys = b"
  using assms by (induction ys arbitrary: b) (auto simp: expand_def)

lemma parseCommand_tokens:
  assumes len: "length av = NUM_ARGS" "length rv = 2"
    and as: "as = arg_toks (tokens line)"
    and ne: "as \<noteq> []" and k: "length as < NUM_ARGS"
    and fit: "fits pid as"
  shows "\<exists>rest. parseCommand pid line av rv g =
           Inr (int (length as), map arg_ptr (strip_amp as) @ Null # rest,
                redirs (tokens line) rv,
                (if last as = ''&'' \<and> disallow_background g = 0
                 then g\<lparr>pidString := foldl (expand pid) (pidString g) as, background := 1\<rparr>
                 else g\<lparr>pidString := foldl (expand pid) (pidString g) as\<rparr>))"
proof -
  define k where "k = length as"
  define g1 where "g1 = g\<lparr>pidString := foldl (expand pid) (pidString g) as\<rparr>"
  define av1 where "av1 = map arg_ptr as @ drop k av"
  have loop: "parse_loop pid (strtok line) av rv 0 g =
                Inr (av1, redirs (tokens line) rv, int k, g1)"
    using parse_loop_tokens [of av NUM_ARGS rv 0 "strtok line" pid g] len k fit
    by (simp add: toks_of_strtok as [symmetric] k_def g1_def av1_def)
  have k1: "0 < k" "k < NUM_ARGS" using ne k by (simp_all add: k_def)
  have l1: "length av1 = NUM_ARGS"
    using len k1 by (simp add: av1_def k_def)
  define rest where "rest = drop (Suc k) av"
  have dk: "drop k av = av ! k # rest"
    using k1 len by (simp add: rest_def Cons_nth_drop_Suc)
  define av2 where "av2 = map arg_ptr as @ Null # rest"
  have "av1[length (map arg_ptr as) := Null] = av2"
    unfolding av1_def av2_def dk by (simp only: list_update_length)
  then have st: "array_store av1 (int k) Null = Inr av2"
    using k1 l1 by (simp add: array_store_def k_def)
  from ne obtain bs l where asl: "as = bs @ [l]"
    by (cases as rule: rev_cases) auto
  have a2: "av2 = map arg_ptr bs @ arg_ptr l # Null # rest"
    by (simp add: av2_def asl)
  have kb: "nat (int k - 1) = length (map arg_ptr bs)"
    by (simp add: k_def asl)
  have l2: "length av2 = NUM_ARGS"
    using l1 by (simp add: av2_def av1_def dk)
  have ld: "array_load av2 (int k - 1) = Inr (arg_ptr l)"
  proof -
    have "av2 ! nat (int k - 1) = arg_ptr l"
      unfolding kb a2 by (rule nth_append_length)
    then show ?thesis
      using k1 l2 by (simp add: array_load_def)
  qed
  have cs: "\<exists>s. c_str g1 (arg_ptr l) = Inr s \<and> (s = ''&'') = (l = ''&'')"
  proof (cases "strstr l ''$$''")
    case None
    then show ?thesis by (simp add: arg_ptr_def)
  next
    case (Some i)
    have "foldl (expand pid) (pidString g) (bs @ l # []) = take i l @ decimal pid"
      by (rule foldl_expand_last [OF Some]) simp
    then have "pidString g1 = take i l @ decimal pid"
      by (simp add: g1_def asl)
    moreover have "l \<noteq> ''&''" using Some by auto
    ultimately show ?thesis
      using Some expansion_not_amp by (simp add: arg_ptr_def)
  qed
  then obtain s where s: "c_str g1 (arg_ptr l) = Inr s" "(s = ''&'') = (l = ''&'')"
    by blast
  show ?thesis
  proof (cases "l = ''&''")
    case False
    then show ?thesis
      using loop st ld s
      by (auto simp: parseCommand_def strip_amp_def av2_def g1_def k_def asl)
  next
    case True
    have "av2[nat (int k - 1) := Null] = map arg_ptr bs @ Null # Null # rest"
      unfolding kb a2 by (rule list_update_length)
    then have st3: "array_store av2 (int k - 1) Null = Inr (map arg_ptr bs @ Null # Null # rest)"
      using k1 l2 by (simp add: array_store_def)
    show ?thesis
      using loop st ld s True st3
      by (auto simp: parseCommand_def strip_amp_def g1_def k_def asl)
  qed
qed

subsection \<open>The argument vector and the split at spaces\<close>

lemma argv_arg_ptr:
  "argv g (map arg_ptr xs @ Null # rest) = map (arg_text (pidString g)) xs"
  by (induction xs) (auto simp: arg_ptr_def arg_text_def split: option.splits)

lemma tokens_space: "tokens (CHR '' '' # cs) = tokens cs"
  by (simp add: tokens.simps [of "CHR '' '' # cs"] tokens.simps [of cs] strtok_def)

lemma tokens_drop1:
  assumes "r = [] \<or> hd r = CHR '' ''"
  shows "tokens (drop 1 r) = tokens r"
proof (cases r)
  case Nil
  then show ?thesis by simp
next
  case (Cons c cs)
  with assms show ?thesis by (simp add: tokens_space)
qed

lemma dropWhile_hd: "dropWhile P xs = [] \<or> \<not> P (hd (dropWhile P xs))"
  using hd_dropWhile [of P xs] by blast

lemma tokens_word:
  "tokens s = (if takeWhile (\<lambda>c. c \<noteq> CHR '' '') s = [] then []
               else [takeWhile (\<lambda>c. c \<noteq> CHR '' '') s])
              @ tokens (dropWhile (\<lambda>c. c \<noteq> CHR '' '') s)"
proof (cases s)
  case Nil
  then show ?thesis by simp
next
  case (Cons c cs)
  show ?thesis
  proof (cases "c = CHR '' ''")
    case True
    with Cons show ?thesis by simp
  next
    case False
    have "tokens (drop 1 (dropWhile (\<lambda>c. c \<noteq> CHR '' '') cs)) = tokens (dropWhile (\<lambda>c. c \<noteq> CHR '' '') cs)"
      using dropWhile_hd [of "\<lambda>c. c \<noteq> CHR '' ''" cs] by (intro tokens_drop1) auto
    with False Cons show ?thesis
      by (simp add: tokens.simps [of "c # cs"] strtok_def)
  qed
qed

lemma split_acc_tokens:
  "split_acc w s =
     (if w @ takeWhile (\<lambda>c. c \<noteq> CHR '' '') s = [] then []
      else [w @ takeWhile (\<lambda>c. c \<noteq> CHR '' '') s])
     @ tokens (dropWhile (\<lambda>c. c \<noteq> CHR '' '') s)"
proof (induction s arbitrary: w)
  case Nil
  then show ?case by simp
next
  case (Cons c cs)
  show ?case
  proof (cases "c = CHR '' ''")
    case True
    then show ?thesis
      using Cons [of "[]"] tokens_word [of cs] by (simp add: tokens_space)
  next
    case False
    then show ?thesis
      using Cons [of "w @ [c]"] by simp
  qed
qed

lemma split_on_space_tokens: "split_on_space line = tokens line"
  using split_acc_tokens [of "[]" line] tokens_word [of line]
  by (simp add: split_on_space_def)

lemma arg_toks_plain:
  "''<'' \<notin> set ts \<Longrightarrow> ''>'' \<notin> set ts \<Longrightarrow> arg_toks ts = ts"
  by (induction ts rule: arg_toks.induct) auto

lemma redirs_plain:
  "''<'' \<notin> set ts \<Longrightarrow> ''>'' \<notin> set ts \<Longrightarrow> redirs ts r = r"
  by (induction ts r rule: redirs.induct) auto

lemma fits_plain: "\<forall>t \<in> set ts. strstr t ''$$'' = None \<Longrightarrow> fits pid ts"
  by (simp add: fits_def)

lemma map_arg_text_plain:
  "\<forall>t \<in> set ts. strstr t ''$$'' = None \<Longrightarrow> map (arg_text b) ts = ts"
  by (induction ts) (auto simp: arg_text_def)

lemma arg_toks_append_op:
  assumes "''<'' \<notin> set ts" "''>'' \<notin> set ts" "op = ''<'' \<or> op = ''>''"
  shows "arg_toks (ts @ [op]) = ts"
  using assms by (induction ts) (auto simp: arg_toks_Cons)

lemma redirs_append_op:
  assumes "''<'' \<notin> set ts" "''>'' \<notin> set ts" "op = ''<'' \<or> op = ''>''"
  shows "redirs (ts @ [op]) r = r[(if op = ''<'' then 0 else 1) := Null]"
  using assms by (induction ts) (auto simp: redirs_Cons)

lemma fits_append: "fits pid (xs @ ys) = (fits pid xs \<and> fits pid ys)"
  by (auto simp: fits_def)

lemma fits_amp [simp]: "fits pid [''&'']"
  by (simp add: fits_def)

lemma strip_amp_keeps:
  assumes "strstr t ''$$'' = Some i"
  shows "\<exists>zs. strip_amp (xs @ t # ys) = xs @ t # zs"
proof (cases ys rule: rev_cases)
  case Nil
  have "t \<noteq> ''&''" using assms by auto
  with Nil show ?thesis by (simp add: strip_amp_def)
next
  case (snoc ws w)
  then show ?thesis by (simp add: strip_amp_def butlast_append)
qed

subsection \<open>The loops over the job table\<close>


lemma resolve_loop_slots:
  assumes "length pids = BGPID_ARR_SIZE" and "j < BGPID_ARR_SIZE"
  shows "snd (resolveBGPID_loop wp pids i stat out) ! j =
           (if i \<le> j \<and> pids ! j \<noteq> 0 \<and> fst (wp (pids ! j)) \<noteq> 0 then 0 else pids ! j)"
  using assms
proof (induction wp pids i stat out rule: resolveBGPID_loop.induct)
  case (1 wp pids i stat out)
  show ?case
  proof (cases "i < BGPID_ARR_SIZE")
    case False
    with "1.prems" show ?thesis
      by (subst resolveBGPID_loop.simps) simp
  next
    case True
    show ?thesis
    proof (cases "pids ! i = 0")
      case z: True
      have "snd (resolveBGPID_loop wp pids i stat out) = snd (resolveBGPID_loop wp pids (i + 1) stat out)"
        using True z by (subst resolveBGPID_loop.simps) simp
      moreover have "snd (resolveBGPID_loop wp pids (i + 1) stat out) ! j =
           (if i + 1 \<le> j \<and> pids ! j \<noteq> 0 \<and> fst (wp (pids ! j)) \<noteq> 0 then 0 else pids ! j)"
        using "1.IH"(3) [OF True] z "1.prems" by simp
      ultimately show ?thesis
        using z by (cases "j = i") auto
    next
      case nz: False
      define stat' where "stat' = (case snd (wp (pids ! i)) of None \<Rightarrow> stat | Some v \<Rightarrow> v)"
      show ?thesis
      proof (cases "fst (wp (pids ! i)) = 0")
        case running: True
        have "snd (resolveBGPID_loop wp pids i stat out) = snd (resolveBGPID_loop wp pids (i + 1) stat' out)"
          using True nz running by (subst resolveBGPID_loop.simps) (simp add: Let_def stat'_def)
        moreover have "snd (resolveBGPID_loop wp pids (i + 1) stat' out) ! j =
           (if i + 1 \<le> j \<and> pids ! j \<noteq> 0 \<and> fst (wp (pids ! j)) \<noteq> 0 then 0 else pids ! j)"
          using "1.IH"(2) [OF True nz refl] running "1.prems"
          by (simp add: stat'_def)
        ultimately show ?thesis
          using running by (cases "j = i") auto
      next
        case finished: False
        let ?out = "out @ [Printf (''background pid '' @ decimal (pids ! i) @ '' is done: ''), report stat']"
        have "snd (resolveBGPID_loop wp pids i stat out) =
                snd (resolveBGPID_loop wp (pids[i := 0]) (i + 1) stat' ?out)"
          using True nz finished by (subst resolveBGPID_loop.simps) (simp add: Let_def stat'_def)
        moreover have "snd (resolveBGPID_loop wp (pids[i := 0]) (i + 1) stat' ?out) ! j =
           (if i + 1 \<le> j \<and> pids[i := 0] ! j \<noteq> 0 \<and> fst (wp (pids[i := 0] ! j)) \<noteq> 0
            then 0 else pids[i := 0] ! j)"
          using "1.IH"(1) [OF True nz refl finished] "1.prems"
          by (simp add: stat'_def)
        ultimately show ?thesis
          using finished nz True "1.prems" by (cases "j = i") auto
      qed
    qed
  qed
qed

lemma resolve_loop_idle:
  assumes "\<forall>j. i \<le> j \<and> j < BGPID_ARR_SIZE \<longrightarrow> pids ! j = 0 \<or> fst (wp (pids ! j)) = 0"
  shows "resolveBGPID_loop wp pids i stat out = (out, pids)"
  using assms
proof (induction wp pids i stat out rule: resolveBGPID_loop.induct)
  case (1 wp pids i stat out)
  show ?case
  proof (cases "i < BGPID_ARR_SIZE")
    case False
    then show ?thesis by (subst resolveBGPID_loop.simps) simp
  next
    case True
    show ?thesis
    proof (cases "pids ! i = 0")
      case z: True
      have "resolveBGPID_loop wp pids (i + 1) stat out = (out, pids)"
        using "1.IH"(3) [OF True] z "1.prems" by simp
      then show ?thesis
        using True z by (subst resolveBGPID_loop.simps) simp
    next
      case nz: False
      with "1.prems" True have running: "fst (wp (pids ! i)) = 0" by auto
      have "resolveBGPID_loop wp pids (i + 1)
              (case snd (wp (pids ! i)) of None \<Rightarrow> stat | Some v \<Rightarrow> v) out = (out, pids)"
        using "1.IH"(2) [OF True nz refl] running "1.prems" by simp
      then show ?thesis
        using True nz running by (subst resolveBGPID_loop.simps) (simp add: Let_def)
    qed
  qed
qed

lemma resolve_loop_out:
  assumes "length pids = BGPID_ARR_SIZE"
  shows "\<exists>new. fst (resolveBGPID_loop wp pids i stat out) = out @ new
           \<and> (\<forall>e \<in> set new. (\<exists>s. e = report s) \<or>
                 (\<exists>j. i \<le> j \<and> j < BGPID_ARR_SIZE \<and> pids ! j \<noteq> 0 \<and> fst (wp (pids ! j)) \<noteq> 0
                      \<and> e = done_header (pids ! j)))
           \<and> (\<forall>j. i \<le> j \<and> j < BGPID_ARR_SIZE \<and> pids ! j \<noteq> 0 \<and> fst (wp (pids ! j)) \<noteq> 0
                 \<longrightarrow> done_header (pids ! j) \<in> set new)"
  using assms
proof (induction wp pids i stat out rule: resolveBGPID_loop.induct)
  case (1 wp pids i stat out)
  show ?case
  proof (cases "i < BGPID_ARR_SIZE")
    case False
    then have "fst (resolveBGPID_loop wp pids i stat out) = out @ []"
      by (subst resolveBGPID_loop.simps) simp
    with False show ?thesis by (intro exI [of _ "[]"]) auto
  next
    case True
    show ?thesis
    proof (cases "pids ! i = 0")
      case z: True
      have eq: "resolveBGPID_loop wp pids i stat out = resolveBGPID_loop wp pids (i + 1) stat out"
        using True z by (subst resolveBGPID_loop.simps) simp
      obtain new where n: "fst (resolveBGPID_loop wp pids (i + 1) stat out) = out @ new"
        "\<forall>e \<in> set new. (\<exists>s. e = report s) \<or>
                 (\<exists>j. i + 1 \<le> j \<and> j < BGPID_ARR_SIZE \<and> pids ! j \<noteq> 0 \<and> fst (wp (pids ! j)) \<noteq> 0
                      \<and> e = done_header (pids ! j))"
        "\<forall>j. i + 1 \<le> j \<and> j < BGPID_ARR_SIZE \<and> pids ! j \<noteq> 0 \<and> fst (wp (pids ! j)) \<noteq> 0
                 \<longrightarrow> done_header (pids ! j) \<in> set new"
        using "1.IH"(3) [OF True] z "1.prems" by auto
      have a: "\<forall>e \<in> set new. (\<exists>s. e = report s) \<or>
                 (\<exists>j. i \<le> j \<and> j < BGPID_ARR_SIZE \<and> pids ! j \<noteq> 0 \<and> fst (wp (pids ! j)) \<noteq> 0
                      \<and> e = done_header (pids ! j))"
        using n(2) by (metis Suc_eq_plus1 Suc_leD)
      have b: "\<forall>j. i \<le> j \<and> j < BGPID_ARR_SIZE \<and> pids ! j \<noteq> 0 \<and> fst (wp (pids ! j)) \<noteq> 0
                 \<longrightarrow> done_header (pids ! j) \<in> set new"
      proof (intro allI impI)
        fix j assume j: "i \<le> j \<and> j < BGPID_ARR_SIZE \<and> pids ! j \<noteq> 0 \<and> fst (wp (pids ! j)) \<noteq> 0"
        with z have "j \<noteq> i" by auto
        with j have "i + 1 \<le> j" by simp
        with j n(3) show "done_header (pids ! j) \<in> set new" by blast
      qed
      show ?thesis
        unfolding eq using n(1) a b by blast
    next
      case nz: False
      define stat' where "stat' = (case snd (wp (pids ! i)) of None \<Rightarrow> stat | Some v \<Rightarrow> v)"
      show ?thesis
      proof (cases "fst (wp (pids ! i)) = 0")
        case running: True
        have eq: "resolveBGPID_loop wp pids i stat out = resolveBGPID_loop wp pids (i + 1) stat' out"
          using True nz running by (subst resolveBGPID_loop.simps) (simp add: Let_def stat'_def)
        obtain new where n: "fst (resolveBGPID_loop wp pids (i + 1) stat' out) = out @ new"
          "\<forall>e \<in> set new. (\<exists>s. e = report s) \<or>
                 (\<exists>j. i + 1 \<le> j \<and> j < BGPID_ARR_SIZE \<and> pids ! j \<noteq> 0 \<and> fst (wp (pids ! j)) \<noteq> 0
                      \<and> e = done_header (pids ! j))"
          "\<forall>j. i + 1 \<le> j \<and> j < BGPID_ARR_SIZE \<and> pids ! j \<noteq> 0 \<and> fst (wp (pids ! j)) \<noteq> 0
                 \<longrightarrow> done_header (pids ! j) \<in> set new"
          using "1.IH"(2) [OF True nz refl] running "1.prems" unfolding stat'_def by auto
        have a: "\<forall>e \<in> set new. (\<exists>s. e = report s) \<or>
                 (\<exists>j. i \<le> j \<and> j < BGPID_ARR_SIZE \<and> pids ! j \<noteq> 0 \<and> fst (wp (pids ! j)) \<noteq> 0
                      \<and> e = done_header (pids ! j))"
          using n(2) by (metis Suc_eq_plus1 Suc_leD)
        have b: "\<forall>j. i \<le> j \<and> j < BGPID_ARR_SIZE \<and> pids ! j \<noteq> 0 \<and> fst (wp (pids ! j)) \<noteq> 0
                 \<longrightarrow> done_header (pids ! j) \<in> set new"
        proof (intro allI impI)
          fix j assume j: "i \<le> j \<and> j < BGPID_ARR_SIZE \<and> pids ! j \<noteq> 0 \<and> fst (wp (pids ! j)) \<noteq> 0"
          with running have "j \<noteq> i" by auto
          with j have "i + 1 \<le> j" by simp
          with j n(3) show "done_header (pids ! j) \<in> set new" by blast
        qed
        show ?thesis
          unfolding eq using n(1) a b by blast
      next
        case finished: False
        let ?msgs = "[done_header (pids ! i), report stat']"
        have eq: "resolveBGPID_loop wp pids i stat out =
                    resolveBGPID_loop wp (pids[i := 0]) (i + 1) stat' (out @ ?msgs)"
          using True nz finished
          by (subst resolveBGPID_loop.simps) (simp add: Let_def stat'_def done_header_def)
        have nth: "pids[i := 0] ! j = pids ! j" if "i + 1 \<le> j" for j
          using that by simp
        obtain new where n: "fst (resolveBGPID_loop wp (pids[i := 0]) (i + 1) stat' (out @ ?msgs))
              = (out @ ?msgs) @ new"
          "\<forall>e \<in> set new. (\<exists>s. e = report s) \<or>
                 (\<exists>j. i + 1 \<le> j \<and> j < BGPID_ARR_SIZE \<and> pids[i := 0] ! j \<noteq> 0
                      \<and> fst (wp (pids[i := 0] ! j)) \<noteq> 0 \<and> e = done_header (pids[i := 0] ! j))"
          "\<forall>j. i + 1 \<le> j \<and> j < BGPID_ARR_SIZE \<and> pids[i := 0] ! j \<noteq> 0
                 \<and> fst (wp (pids[i := 0] ! j)) \<noteq> 0
                 \<longrightarrow> done_header (pids[i := 0] ! j) \<in> set new"
          using "1.IH"(1) [OF True nz refl finished] "1.prems"
          unfolding stat'_def done_header_def by auto
        have a: "\<forall>e \<in> set (?msgs @ new). (\<exists>s. e = report s) \<or>
                 (\<exists>j. i \<le> j \<and> j < BGPID_ARR_SIZE \<and> pids ! j \<noteq> 0 \<and> fst (wp (pids ! j)) \<noteq> 0
                      \<and> e = done_header (pids ! j))"
        proof
          fix e assume "e \<in> set (?msgs @ new)"
          then consider "e = done_header (pids ! i)" | "e = report stat'" | "e \<in> set new" by auto
          then show "(\<exists>s. e = report s) \<or>
                 (\<exists>j. i \<le> j \<and> j < BGPID_ARR_SIZE \<and> pids ! j \<noteq> 0 \<and> fst (wp (pids ! j)) \<noteq> 0
                      \<and> e = done_header (pids ! j))"
          proof cases
            case 1
            with True nz finished show ?thesis by blast
          next
            case 2
            then show ?thesis by blast
          next
            case 3
            with n(2) consider "\<exists>s. e = report s"
              | j where "i + 1 \<le> j" "j < BGPID_ARR_SIZE" "pids[i := 0] ! j \<noteq> 0"
                  "fst (wp (pids[i := 0] ! j)) \<noteq> 0" "e = done_header (pids[i := 0] ! j)"
              by blast
            then show ?thesis
            proof cases
              case 1
              then show ?thesis by blast
            next
              case 2
              with nth [of j] have "i \<le> j \<and> j < BGPID_ARR_SIZE \<and> pids ! j \<noteq> 0
                  \<and> fst (wp (pids ! j)) \<noteq> 0 \<and> e = done_header (pids ! j)" by simp
              then show ?thesis by blast
            qed
          qed
        qed
        have b: "\<forall>j. i \<le> j \<and> j < BGPID_ARR_SIZE \<and> pids ! j \<noteq> 0 \<and> fst (wp (pids ! j)) \<noteq> 0
                 \<longrightarrow> done_header (pids ! j) \<in> set (?msgs @ new)"
        proof (intro allI impI)
          fix j assume j: "i \<le> j \<and> j < BGPID_ARR_SIZE \<and> pids ! j \<noteq> 0 \<and> fst (wp (pids ! j)) \<noteq> 0"
          show "done_header (pids ! j) \<in> set (?msgs @ new)"
          proof (cases "j = i")
            case True
            then show ?thesis by simp
          next
            case False
            with j have "i + 1 \<le> j" by simp
            with j n(3) nth [of j] show ?thesis by simp
          qed
        qed
        have "fst (resolveBGPID_loop wp pids i stat out) = out @ (?msgs @ new)"
          unfolding eq using n(1) by simp
        with a b show ?thesis by blast
      qed
    qed
  qed
qed

lemma scrub_loop:
  assumes "length pids = BGPID_ARR_SIZE" and "i \<le> BGPID_ARR_SIZE"
  shows "scrubPIDArray_loop pids i = take i pids @ replicate (BGPID_ARR_SIZE - i) 0"
  using assms
proof (induction pids i rule: scrubPIDArray_loop.induct)
  case (1 pids i)
  show ?case
  proof (cases "i < BGPID_ARR_SIZE")
    case False
    with "1.prems" show ?thesis
      by (subst scrubPIDArray_loop.simps) simp
  next
    case True
    have "scrubPIDArray_loop (pids[i := 0]) (i + 1)
            = take (i + 1) (pids[i := 0]) @ replicate (BGPID_ARR_SIZE - (i + 1)) 0"
      using "1.IH" [OF True] "1.prems" True by simp
    moreover have "take (i + 1) (pids[i := 0]) = take i pids @ [0]"
      using True "1.prems" by (simp add: take_Suc_conv_app_nth)
    moreover have "BGPID_ARR_SIZE - i = Suc (BGPID_ARR_SIZE - (i + 1))"
      using True by simp
    ultimately show ?thesis
      using True by (subst scrubPIDArray_loop.simps) (simp add: replicate_append_same)
  qed
qed

lemma scrubPIDArray_empty:
  "length pids = BGPID_ARR_SIZE \<Longrightarrow> scrubPIDArray pids = replicate BGPID_ARR_SIZE 0"
  by (simp add: scrubPIDArray_def scrub_loop)

lemma placePID_loop_first:
  assumes "i \<le> k" and "k < BGPID_ARR_SIZE" and "pids ! k = 0"
    and "\<forall>j. i \<le> j \<and> j < k \<longrightarrow> pids ! j \<noteq> 0"
  shows "placePID_loop pids p i = (pids[k := p], 1)"
  using assms
proof (induction pids p i rule: placePID_loop.induct)
  case (1 bgPIDs addPID i)
  show ?case
  proof (cases "i = k")
    case True
    with "1.prems" show ?thesis
      by (subst placePID_loop.simps) simp
  next
    case False
    with "1.prems" have lt: "i < k" "i < BGPID_ARR_SIZE" "bgPIDs ! i \<noteq> 0" by auto
    have "placePID_loop bgPIDs addPID (i + 1) = (bgPIDs[k := addPID], 1)"
      using "1.IH" [OF lt(2,3)] "1.prems" lt by simp
    then show ?thesis
      using lt by (subst placePID_loop.simps) simp
  qed
qed

lemma placePID_loop_full:
  assumes "\<forall>j. i \<le> j \<and> j < BGPID_ARR_SIZE \<longrightarrow> pids ! j \<noteq> 0"
  shows "placePID_loop pids p i = (pids, 0)"
  using assms
proof (induction pids p i rule: placePID_loop.induct)
  case (1 bgPIDs addPID i)
  show ?case
  proof (cases "i < BGPID_ARR_SIZE")
    case False
    then show ?thesis by (subst placePID_loop.simps) simp
  next
    case True
    with "1.prems" have nz: "bgPIDs ! i \<noteq> 0" by simp
    have "placePID_loop bgPIDs addPID (i + 1) = (bgPIDs, 0)"
      using "1.IH" [OF True nz] "1.prems" by simp
    then show ?thesis
      using True nz by (subst placePID_loop.simps) simp
  qed
qed

lemma resolve_empty:
  "resolveBGPID wp stat (replicate BGPID_ARR_SIZE 0) = ([], replicate BGPID_ARR_SIZE 0)"
  unfolding resolveBGPID_def by (rule resolve_loop_idle) simp

lemma resolve_many_empty:
  "resolve_many ws (replicate BGPID_ARR_SIZE 0) = ([], replicate BGPID_ARR_SIZE 0)"
  by (induction ws) (simp_all add: resolve_empty)

subsection \<open>The turns of getCommand\<close>






lemma catchSIGTSTP_inform [simp]: "background_inform (catchSIGTSTP g) = 1"
  by (simp add: catchSIGTSTP_def)















subsection \<open>The background flag\<close>

lemma catchSIGTSTP_background [simp]: "background (catchSIGTSTP g) = background g"
  by (simp add: catchSIGTSTP_def)

lemma catchSIGTSTP_pow_background [simp]: "background ((catchSIGTSTP ^^ n) g) = background g"
  by (induction n) simp_all

lemma prompt_cycle_background:
  "prompt_cycle c pids g = (out, pids', g') \<Longrightarrow> background g' = background g"
  by (auto simp: prompt_cycle_def backgroundInform_def Let_def split: prod.splits)

lemma getCommand_background:
  "getCommand cs pids g = Some (out, Inr (userInput, rest, pids', g')) \<Longrightarrow> background g' = background g"
proof (induction cs arbitrary: pids g out)
  case Nil
  then show ?case by simp
next
  case (Cons c cs)
  obtain o1 p1 g1 where pc: "prompt_cycle c pids g = (o1, p1, g1)"
    by (cases "prompt_cycle c pids g") auto
  have b1: "background ((catchSIGTSTP ^^ sigtstp c) g1) = background g"
    using prompt_cycle_background [OF pc] by simp
  show ?case
  proof (cases "case getline c of None \<Rightarrow> False | Some raw \<Rightarrow> accepted raw")
    case True
    with Cons.prems pc have "g' = (catchSIGTSTP ^^ sigtstp c) g1"
      by (auto simp: Let_def split: option.splits sum.splits)
    with b1 show ?thesis by simp
  next
    case False
    with Cons.prems pc obtain o2 where
      "getCommand cs p1 ((catchSIGTSTP ^^ sigtstp c) g1) = Some (o2, Inr (userInput, rest, pids', g'))"
      by (auto simp: Let_def split: option.splits sum.splits if_splits)
    from Cons.IH [OF this] b1 show ?thesis by simp
  qed
qed

lemma cleanup_background:
  "cleanup av n g = Inr (av', g') \<Longrightarrow> background g' = 0"
  by (auto simp: cleanup_def split: sum.splits)

lemma dispatch_background:
  assumes "dispatch pid t s = (out, Inr s')"
  shows "background (gl s') = 0"
  using assms
  by (auto simp: dispatch_def dest!: cleanup_background split: sum.splits prod.splits if_splits)

lemma main_turn_background:
  assumes "main_turn pid t s = Some (out, Inr s')"
  shows "background (gl s') = 0"
  using assms
  by (auto simp: main_turn_def dest!: dispatch_background split: sum.splits prod.splits option.splits)

lemma loop_head_background: "loop_head pid s \<Longrightarrow> background (gl s) = 0"
proof (induction rule: loop_head.induct)
  case (start stack_args stack_redir stack_pids)
  then show ?case by (simp add: initial_shell_def initial_globals_def)
next
  case (turn s t out s')
  then show ?case by (simp add: main_turn_background)
next
  case (signal s)
  then show ?case by simp
qed

lemma exitShell_background: "background (snd (snd (exitShell bg g))) = 0"
  by (simp add: exitShell_def split: prod.splits)

section \<open>Claims about the line parser\<close>

text \<open>
  The arrays handed to \<^const>\<open>parseCommand\<close> in the examples: the \<^const>\<open>NUM_ARGS\<close>
  slots of \<^verbatim>\<open>args\<close> and the two of \<^verbatim>\<open>redir\<close>, all \<^verbatim>\<open>NULL\<close>, with the shell's
  process identifier taken to be 1234.
\<close>

text \<open>
  C2. The claim: a line whose last token is \<^verbatim>\<open><\<close> or \<^verbatim>\<open>>\<close> makes
  \<^verbatim>\<open>parseCommand\<close> fail with a parse error and build no Command. On the line
  \<^verbatim>\<open>ls <\<close> the code returns normally: one argument \<^verbatim>\<open>ls\<close>, both redirection
  slots \<^verbatim>\<open>NULL\<close>.
\<close>

theorem C2_trailing_redirect_counterexample:
  "last (tokens ''ls <'') = ''<'' \<and>
   command_of (parseCommand 1234 ''ls <'' (replicate 513 Null) [Null, Null] initial_globals)
     = Inr ([''ls''], [Null, Null], 0)"
proof -
  have "last (tokens ''ls <'') = ''<''" by code_simp
  moreover have "command_of (parseCommand 1234 ''ls <'' (replicate 513 Null) [Null, Null] initial_globals)
     = Inr ([''ls''], [Null, Null], 0)" by code_simp
  ultimately show ?thesis by simp
qed

text \<open>
  C2, as the code has it. When the tokens of a line are arguments \<open>ts\<close> (at least one,
  none of them \<^verbatim>\<open><\<close> or \<^verbatim>\<open>>\<close>, within the capacity of \<^verbatim>\<open>args\<close> and
  \<^verbatim>\<open>pidString\<close>) followed by a final \<^verbatim>\<open><\<close> or \<^verbatim>\<open>>\<close>, then
  \<^verbatim>\<open>parseCommand\<close> returns: \<^verbatim>\<open>strtok\<close> finds no target, the slot of that
  operator is set to \<^verbatim>\<open>NULL\<close>, and the Command is built from \<open>ts\<close>.
\<close>

theorem C2_missing_target:
  assumes "length av = NUM_ARGS" and "length rv = 2"
    and "tokens line = ts @ [op]" and "op = ''<'' \<or> op = ''>''"
    and "''<'' \<notin> set ts" and "''>'' \<notin> set ts"
    and "ts \<noteq> []" and "length ts < NUM_ARGS" and "fits pid ts"
  shows "\<exists>av' g'. parseCommand pid line av rv g =
             Inr (int (length ts), av', rv[(if op = ''<'' then 0 else 1) := Null], g')
           \<and> argv g' av' = map (arg_text (pidString g')) (strip_amp ts)"
proof -
  have at: "arg_toks (tokens line) = ts"
    using assms(3-6) by (simp add: arg_toks_append_op)
  have rd: "redirs (tokens line) rv = rv[(if op = ''<'' then 0 else 1) := Null]"
    using assms(3-6) by (simp add: redirs_append_op)
  obtain rest where "parseCommand pid line av rv g =
           Inr (int (length ts), map arg_ptr (strip_amp ts) @ Null # rest,
                redirs (tokens line) rv,
                (if last ts = ''&'' \<and> disallow_background g = 0
                 then g\<lparr>pidString := foldl (expand pid) (pidString g) ts, background := 1\<rparr>
                 else g\<lparr>pidString := foldl (expand pid) (pidString g) ts\<rparr>))"
    using parseCommand_tokens [OF assms(1,2) at [symmetric] assms(7-9)] by blast
  then show ?thesis
    by (simp add: rd argv_arg_ptr)
qed

theorem C2_missing_target_witness:
  "tokens ''cat a$$ >'' = [''cat'', ''a$$''] @ [''>''] \<and>
   (\<exists>av' g'. parseCommand 1234 ''cat a$$ >'' (replicate 513 Null) [Tok ''x'', Tok ''y''] initial_globals
        = Inr (2, av', [Tok ''x'', Null], g')
      \<and> argv g' av' = [''cat'', ''a1234''])"
proof -
  have tk: "tokens ''cat a$$ >'' = [''cat'', ''a$$''] @ [''>'']" by code_simp
  have d: "decimal 1234 = ''1234''" by code_simp
  have ft: "fits 1234 [''cat'', ''a$$'']"
    by (simp add: fits_def d PIDSTRING_SZ_def)
  have "\<exists>av' g'. parseCommand 1234 ''cat a$$ >'' (replicate 513 Null) [Tok ''x'', Tok ''y''] initial_globals
        = Inr (int (length [''cat'', ''a$$'']), av',
               [Tok ''x'', Tok ''y''][(if ''>'' = ''<'' then 0 else 1) := Null], g')
      \<and> argv g' av' = map (arg_text (pidString g')) (strip_amp [''cat'', ''a$$''])"
    by (rule C2_missing_target [OF _ _ tk _ _ _ _ _ ft]) (simp_all add: NUM_ARGS_def)
  then obtain av' g' where r: "parseCommand 1234 ''cat a$$ >'' (replicate 513 Null) [Tok ''x'', Tok ''y''] initial_globals
        = Inr (2, av', [Tok ''x'', Null], g')"
      "argv g' av' = [''cat'', pidString g']"
    by (auto simp: strip_amp_def arg_text_def)
  have "command_of (parseCommand 1234 ''cat a$$ >'' (replicate 513 Null) [Tok ''x'', Tok ''y''] initial_globals)
      = Inr ([''cat'', ''a1234''], [Tok ''x'', Null], 0)" by code_simp
  with r have "argv g' av' = [''cat'', ''a1234'']" by simp
  with r(1) tk show ?thesis by blast
qed

text \<open>
  C3. The claim: with no \<^verbatim>\<open><\<close>, no \<^verbatim>\<open>>\<close> and no final \<^verbatim>\<open>&\<close>, the argument
  list is the list of the line's words. On \<^verbatim>\<open>echo $$\<close> the second argument is the
  process identifier, not the word \<^verbatim>\<open>$$\<close>.
\<close>

theorem C3_dollars_counterexample:
  "split_on_space ''echo $$'' = [''echo'', ''$$''] \<and>
   ''<'' \<notin> set (split_on_space ''echo $$'') \<and> ''>'' \<notin> set (split_on_space ''echo $$'') \<and>
   last (split_on_space ''echo $$'') \<noteq> ''&'' \<and>
   command_of (parseCommand 1234 ''echo $$'' (replicate 513 Null) [Null, Null] initial_globals)
     = Inr ([''echo'', ''1234''], [Null, Null], 0)"
proof -
  have sp: "split_on_space ''echo $$'' = [''echo'', ''$$'']" by code_simp
  moreover have "''<'' \<notin> set (split_on_space ''echo $$'')" by (simp add: sp)
  moreover have "''>'' \<notin> set (split_on_space ''echo $$'')" by (simp add: sp)
  moreover have "last (split_on_space ''echo $$'') \<noteq> ''&''" by (simp add: sp)
  moreover have "command_of (parseCommand 1234 ''echo $$'' (replicate 513 Null) [Null, Null] initial_globals)
     = Inr ([''echo'', ''1234''], [Null, Null], 0)" by code_simp
  ultimately show ?thesis by simp
qed

text \<open>
  C3, as the code has it. Let the words of a line, split at its spaces, be at least one and
  fewer than \<^const>\<open>NUM_ARGS\<close>, none of them \<^verbatim>\<open><\<close> or \<^verbatim>\<open>>\<close>, none containing
  \<^verbatim>\<open>$$\<close>, the last one not \<^verbatim>\<open>&\<close>. Then \<^verbatim>\<open>parseCommand\<close> returns their
  number, the argument vector is exactly these words in order, and neither the
  redirection slots nor the globals change.
\<close>

theorem C3_split:
  assumes "length av = NUM_ARGS" and "length rv = 2"
    and "split_on_space line \<noteq> []"
    and "length (split_on_space line) < NUM_ARGS"
    and "''<'' \<notin> set (split_on_space line)"
    and "''>'' \<notin> set (split_on_space line)"
    and "last (split_on_space line) \<noteq> ''&''"
    and "\<forall>t \<in> set (split_on_space line). strstr t ''$$'' = None"
  shows "\<exists>av'. parseCommand pid line av rv g = Inr (int (length (split_on_space line)), av', rv, g)
           \<and> argv g av' = split_on_space line"
proof -
  define ts where "ts = tokens line"
  have sp: "split_on_space line = ts" by (simp add: split_on_space_tokens ts_def)
  have at: "arg_toks ts = ts" using assms(5,6) by (simp add: sp arg_toks_plain)
  have "\<exists>rest. parseCommand pid line av rv g =
           Inr (int (length ts), map arg_ptr (strip_amp ts) @ Null # rest,
                redirs (tokens line) rv,
                (if last ts = ''&'' \<and> disallow_background g = 0
                 then g\<lparr>pidString := foldl (expand pid) (pidString g) ts, background := 1\<rparr>
                 else g\<lparr>pidString := foldl (expand pid) (pidString g) ts\<rparr>))"
    using assms by (intro parseCommand_tokens) (simp_all add: sp at ts_def [symmetric] fits_plain)
  then obtain rest where "parseCommand pid line av rv g =
       Inr (int (length ts), map arg_ptr ts @ Null # rest, rv, g)"
    using assms(5-8) by (auto simp: sp strip_amp_def redirs_plain foldl_expand_none ts_def [symmetric])
  then show ?thesis
    using assms(8) by (simp add: sp argv_arg_ptr map_arg_text_plain)
qed

theorem C3_split_witness:
  "split_on_space ''ls  -l /tmp '' = [''ls'', ''-l'', ''/tmp''] \<and>
   (\<exists>av'. parseCommand 1234 ''ls  -l /tmp '' (replicate 513 Null) [Null, Null] initial_globals
        = Inr (3, av', [Null, Null], initial_globals)
      \<and> argv initial_globals av' = [''ls'', ''-l'', ''/tmp''])"
proof -
  have sp: "split_on_space ''ls  -l /tmp '' = [''ls'', ''-l'', ''/tmp'']" by code_simp
  show ?thesis
    using C3_split [of "replicate 513 Null" "[Null, Null]" "''ls  -l /tmp ''" 1234 initial_globals]
    by (simp add: sp NUM_ARGS_def)
qed

text \<open>
  C4. The claim: whenever the last token of a line is \<^verbatim>\<open>&\<close>, the Command is marked
  background-requested if and only if background execution is allowed. On
  \<^verbatim>\<open>ls > &\<close>, with background execution allowed, the \<^verbatim>\<open>&\<close> is taken as the
  target of \<^verbatim>\<open>>\<close> and the flag stays 0.
\<close>

theorem C4_amp_target_counterexample:
  "last (tokens ''ls > &'') = ''&'' \<and> disallow_background initial_globals = 0 \<and>
   command_of (parseCommand 1234 ''ls > &'' (replicate 513 Null) [Null, Null] initial_globals)
     = Inr ([''ls''], [Null, Tok ''&''], 0)"
proof -
  have "last (tokens ''ls > &'') = ''&''" by code_simp
  moreover have "disallow_background initial_globals = 0" by (simp add: initial_globals_def)
  moreover have "command_of (parseCommand 1234 ''ls > &'' (replicate 513 Null) [Null, Null] initial_globals)
     = Inr ([''ls''], [Null, Tok ''&''], 0)" by code_simp
  ultimately show ?thesis by simp
qed

text \<open>
  C4, as the code has it. When the arguments of a line (its tokens without the
  redirection operators and their targets) end in \<^verbatim>\<open>&\<close>, within the capacity of
  \<^verbatim>\<open>args\<close> and \<^verbatim>\<open>pidString\<close>, then \<^verbatim>\<open>parseCommand\<close> returns, the argument
  vector is the arguments before the \<^verbatim>\<open>&\<close>, and \<^verbatim>\<open>background\<close> is 1 if
  \<^verbatim>\<open>disallow_background\<close> is 0 and is left as it was otherwise; as the flag is 0 when a
  line is parsed, it ends up set exactly when background execution is allowed.
\<close>

theorem C4_trailing_amp:
  assumes "length av = NUM_ARGS" and "length rv = 2"
    and "arg_toks (tokens line) = as @ [''&'']"
    and "length as + 1 < NUM_ARGS" and "fits pid as"
  shows "\<exists>n av' rv' g'. parseCommand pid line av rv g = Inr (n, av', rv', g')
           \<and> argv g' av' = map (arg_text (pidString g')) as
           \<and> background g' = (if disallow_background g = 0 then 1 else background g)
           \<and> disallow_background g' = disallow_background g"
proof -
  have "\<exists>rest. parseCommand pid line av rv g =
           Inr (int (length (as @ [''&''])), map arg_ptr (strip_amp (as @ [''&''])) @ Null # rest,
                redirs (tokens line) rv,
                (if last (as @ [''&'']) = ''&'' \<and> disallow_background g = 0
                 then g\<lparr>pidString := foldl (expand pid) (pidString g) (as @ [''&'']), background := 1\<rparr>
                 else g\<lparr>pidString := foldl (expand pid) (pidString g) (as @ [''&''])\<rparr>))"
    using assms by (intro parseCommand_tokens) (simp_all add: fits_append)
  then obtain rest where "parseCommand pid line av rv g =
           Inr (int (length as) + 1, map arg_ptr as @ Null # rest,
                redirs (tokens line) rv,
                (if disallow_background g = 0
                 then g\<lparr>pidString := foldl (expand pid) (pidString g) (as @ [''&'']), background := 1\<rparr>
                 else g\<lparr>pidString := foldl (expand pid) (pidString g) (as @ [''&''])\<rparr>))"
    by (auto simp: strip_amp_def)
  then show ?thesis
    by (auto simp: argv_arg_ptr)
qed

theorem C4_trailing_amp_witness:
  "(\<exists>n av' rv' g'. parseCommand 1234 ''sleep 5 &'' (replicate 513 Null) [Null, Null] initial_globals
        = Inr (n, av', rv', g')
      \<and> argv g' av' = [''sleep'', ''5''] \<and> background g' = 1) \<and>
   (\<exists>n av' rv' g'. parseCommand 1234 ''sleep 5 &'' (replicate 513 Null) [Null, Null]
          (initial_globals\<lparr>disallow_background := 1\<rparr>)
        = Inr (n, av', rv', g')
      \<and> argv g' av' = [''sleep'', ''5''] \<and> background g' = 0)"
proof -
  have tk: "arg_toks (tokens ''sleep 5 &'') = [''sleep'', ''5''] @ [''&'']" by code_simp
  have ft: "fits 1234 [''sleep'', ''5'']" by (simp add: fits_def)
  have a: "\<exists>n av' rv' g'. parseCommand 1234 ''sleep 5 &'' (replicate 513 Null) [Null, Null] initial_globals
        = Inr (n, av', rv', g')
      \<and> argv g' av' = [''sleep'', ''5''] \<and> background g' = 1"
    using C4_trailing_amp [OF _ _ tk _ ft, of "replicate 513 Null" "[Null, Null]" initial_globals]
    by (fastforce simp: NUM_ARGS_def arg_text_def initial_globals_def)
  have b: "\<exists>n av' rv' g'. parseCommand 1234 ''sleep 5 &'' (replicate 513 Null) [Null, Null]
          (initial_globals\<lparr>disallow_background := 1\<rparr>)
        = Inr (n, av', rv', g')
      \<and> argv g' av' = [''sleep'', ''5''] \<and> background g' = 0"
    using C4_trailing_amp [OF _ _ tk _ ft, of "replicate 513 Null" "[Null, Null]"
        "initial_globals\<lparr>disallow_background := 1\<rparr>"]
    by (fastforce simp: NUM_ARGS_def arg_text_def initial_globals_def)
  from a b show ?thesis by simp
qed

text \<open>
  C5. The claim: every token containing \<^verbatim>\<open>$$\<close> yields its own text before the marker
  followed by the process identifier. On \<^verbatim>\<open>echo a$$ b$$\<close> the argument of the token
  \<^verbatim>\<open>a$$\<close> reads \<^verbatim>\<open>b1234\<close>.
\<close>

theorem C5_two_expansions_counterexample:
  "tokens ''echo a$$ b$$'' = [''echo'', ''a$$'', ''b$$''] \<and>
   strstr ''a$$'' ''$$'' = Some 1 \<and> take 1 ''a$$'' @ decimal 1234 = ''a1234'' \<and>
   command_of (parseCommand 1234 ''echo a$$ b$$'' (replicate 513 Null) [Null, Null] initial_globals)
     = Inr ([''echo'', ''b1234'', ''b1234''], [Null, Null], 0)"
proof -
  have "tokens ''echo a$$ b$$'' = [''echo'', ''a$$'', ''b$$'']" by code_simp
  moreover have "strstr ''a$$'' ''$$'' = Some 1" by simp
  moreover have "take 1 ''a$$'' @ decimal 1234 = ''a1234''" by code_simp
  moreover have "command_of (parseCommand 1234 ''echo a$$ b$$'' (replicate 513 Null) [Null, Null] initial_globals)
     = Inr ([''echo'', ''b1234'', ''b1234''], [Null, Null], 0)" by code_simp
  ultimately show ?thesis by simp
qed

text \<open>
  C5, as the code has it. Let \<open>t\<close> be the last argument of a line that contains
  \<^verbatim>\<open>$$\<close>, with the first marker at offset \<open>i\<close>, within the capacity of \<^verbatim>\<open>args\<close>
  and \<^verbatim>\<open>pidString\<close>. Then \<^verbatim>\<open>parseCommand\<close> returns, the entry of \<open>t\<close> points to
  \<^verbatim>\<open>pidString\<close>, and the argument reads as the first \<open>i\<close> characters of \<open>t\<close>
  followed by the decimal process identifier; what follows the marker in \<open>t\<close> is gone.
\<close>

theorem C5_expansion:
  assumes "length av = NUM_ARGS" and "length rv = 2"
    and "arg_toks (tokens line) = xs @ t # ys"
    and "strstr t ''$$'' = Some i"
    and "\<forall>y \<in> set ys. strstr y ''$$'' = None"
    and "length (xs @ t # ys) < NUM_ARGS" and "fits pid (xs @ t # ys)"
  shows "\<exists>n av' rv' g'. parseCommand pid line av rv g = Inr (n, av', rv', g')
           \<and> av' ! length xs = PidString
           \<and> pidString g' = take i t @ decimal pid
           \<and> argv g' av' ! length xs = take i t @ decimal pid"
proof -
  define as where "as = xs @ t # ys"
  obtain zs where zs: "strip_amp as = xs @ t # zs"
    using strip_amp_keeps [OF assms(4)] by (auto simp: as_def)
  have fe: "foldl (expand pid) (pidString g) as = take i t @ decimal pid"
    unfolding as_def by (rule foldl_expand_last [OF assms(4,5)])
  have "\<exists>rest. parseCommand pid line av rv g =
           Inr (int (length as), map arg_ptr (strip_amp as) @ Null # rest,
                redirs (tokens line) rv,
                (if last as = ''&'' \<and> disallow_background g = 0
                 then g\<lparr>pidString := foldl (expand pid) (pidString g) as, background := 1\<rparr>
                 else g\<lparr>pidString := foldl (expand pid) (pidString g) as\<rparr>))"
    using assms by (intro parseCommand_tokens) (simp_all add: as_def)
  then obtain n av' rv' g' rest where r: "parseCommand pid line av rv g = Inr (n, av', rv', g')"
      "av' = map arg_ptr (strip_amp as) @ Null # rest" "pidString g' = take i t @ decimal pid"
    by (auto simp: fe split: if_splits)
  have av: "argv g' av' = map (arg_text (pidString g')) (strip_amp as)"
    by (simp only: r(2) argv_arg_ptr)
  have "av' ! length xs = PidString"
    using assms(4) by (simp add: r(2) zs nth_append arg_ptr_def)
  moreover have "argv g' av' ! length xs = take i t @ decimal pid"
    using assms(4) by (simp add: av r(3) zs nth_append arg_text_def)
  ultimately show ?thesis using r by blast
qed

theorem C5_expansion_witness:
  "strstr ''hi$$there'' ''$$'' = Some 2 \<and>
   (\<exists>n av' rv' g'. parseCommand 1234 ''echo hi$$there'' (replicate 513 Null) [Null, Null] initial_globals
        = Inr (n, av', rv', g')
      \<and> av' ! 1 = PidString \<and> pidString g' = ''hi1234'' \<and> argv g' av' ! 1 = ''hi1234'')"
proof -
  have tk: "arg_toks (tokens ''echo hi$$there'') = [''echo''] @ ''hi$$there'' # []" by code_simp
  have st: "strstr ''hi$$there'' ''$$'' = Some 2" by simp
  have d: "decimal 1234 = ''1234''" by code_simp
  have ft: "fits 1234 ([''echo''] @ ''hi$$there'' # [])"
    by (simp add: fits_def d PIDSTRING_SZ_def)
  show ?thesis
    using C5_expansion [OF _ _ tk st _ _ ft, of "replicate 513 Null" "[Null, Null]" initial_globals]
    by (simp add: NUM_ARGS_def d)
qed

text \<open>
  C6. On a line with two or more arguments containing \<^verbatim>\<open>$$\<close>, within the capacity of
  \<^verbatim>\<open>args\<close> and \<^verbatim>\<open>pidString\<close>: let \<open>t\<close> be the last of them and \<open>xs ! m\<close> any
  earlier one. Both entries of the argument vector are the address of the one buffer
  \<^verbatim>\<open>pidString\<close>, the buffer holds the expansion of \<open>t\<close>, and so both arguments read as
  the expansion of \<open>t\<close>: the expansion of the earlier token is lost.
\<close>

theorem C6_shared_buffer:
  assumes "length av = NUM_ARGS" and "length rv = 2"
    and "arg_toks (tokens line) = xs @ t # ys"
    and "strstr t ''$$'' = Some i"
    and "\<forall>y \<in> set ys. strstr y ''$$'' = None"
    and "m < length xs" and "strstr (xs ! m) ''$$'' = Some j"
    and "length (xs @ t # ys) < NUM_ARGS" and "fits pid (xs @ t # ys)"
  shows "\<exists>n av' rv' g'. parseCommand pid line av rv g = Inr (n, av', rv', g')
           \<and> av' ! m = PidString \<and> av' ! length xs = PidString
           \<and> pidString g' = take i t @ decimal pid
           \<and> argv g' av' ! m = take i t @ decimal pid
           \<and> argv g' av' ! length xs = take i t @ decimal pid"
proof -
  define as where "as = xs @ t # ys"
  obtain zs where zs: "strip_amp as = xs @ t # zs"
    using strip_amp_keeps [OF assms(4)] by (auto simp: as_def)
  have fe: "foldl (expand pid) (pidString g) as = take i t @ decimal pid"
    unfolding as_def by (rule foldl_expand_last [OF assms(4,5)])
  have "\<exists>rest. parseCommand pid line av rv g =
           Inr (int (length as), map arg_ptr (strip_amp as) @ Null # rest,
                redirs (tokens line) rv,
                (if last as = ''&'' \<and> disallow_background g = 0
                 then g\<lparr>pidString := foldl (expand pid) (pidString g) as, background := 1\<rparr>
                 else g\<lparr>pidString := foldl (expand pid) (pidString g) as\<rparr>))"
    using assms by (intro parseCommand_tokens) (simp_all add: as_def)
  then obtain n av' rv' g' rest where r: "parseCommand pid line av rv g = Inr (n, av', rv', g')"
      "av' = map arg_ptr (strip_amp as) @ Null # rest" "pidString g' = take i t @ decimal pid"
    by (auto simp: fe split: if_splits)
  have av: "argv g' av' = map (arg_text (pidString g')) (strip_amp as)"
    by (simp only: r(2) argv_arg_ptr)
  have "av' ! length xs = PidString"
    using assms(4) by (simp add: r(2) zs nth_append arg_ptr_def)
  moreover have "argv g' av' ! length xs = take i t @ decimal pid"
    using assms(4) by (simp add: av r(3) zs nth_append arg_text_def)
  moreover have "av' ! m = PidString"
    using assms(6,7) by (simp add: r(2) zs nth_append arg_ptr_def)
  moreover have "argv g' av' ! m = take i t @ decimal pid"
    using assms(6,7) by (simp add: av r(3) zs nth_append arg_text_def)
  ultimately show ?thesis using r by blast
qed

theorem C6_shared_buffer_witness:
  "strstr ''b$$'' ''$$'' = Some 1 \<and> strstr ''a$$'' ''$$'' = Some 1 \<and>
   (\<exists>n av' rv' g'. parseCommand 1234 ''echo a$$ b$$ c'' (replicate 513 Null) [Null, Null] initial_globals
        = Inr (n, av', rv', g')
      \<and> av' ! 1 = PidString \<and> av' ! 2 = PidString \<and> pidString g' = ''b1234''
      \<and> argv g' av' ! 1 = ''b1234'' \<and> argv g' av' ! 2 = ''b1234'')"
proof -
  have tk: "arg_toks (tokens ''echo a$$ b$$ c'') = [''echo'', ''a$$''] @ ''b$$'' # [''c'']"
    by code_simp
  have st: "strstr ''b$$'' ''$$'' = Some 1" by simp
  have sm: "strstr ([''echo'', ''a$$''] ! 1) ''$$'' = Some 1" by simp
  have d: "decimal 1234 = ''1234''" by code_simp
  have ft: "fits 1234 ([''echo'', ''a$$''] @ ''b$$'' # [''c''])"
    by (simp add: fits_def d PIDSTRING_SZ_def)
  show ?thesis
    using C6_shared_buffer [OF _ _ tk st _ _ sm _ ft, of "replicate 513 Null" "[Null, Null]" initial_globals]
    by (simp add: NUM_ARGS_def d numeral_2_eq_2)
qed

section \<open>Claims about the job table\<close>

text \<open>
  C7. In a table of \<^const>\<open>BGPID_ARR_SIZE\<close> slots: when some slot is empty,
  \<^verbatim>\<open>placePID\<close> returns with the process identifier stored in the first empty slot and
  every other slot as it was, and prints nothing; when no slot is empty, it prints its
  diagnostic and the shell exits with 1.
\<close>

theorem C7_placePID:
  assumes "length pids = BGPID_ARR_SIZE"
  shows "((\<exists>k < BGPID_ARR_SIZE. pids ! k = 0) \<longrightarrow>
            (\<exists>k < BGPID_ARR_SIZE. pids ! k = 0 \<and> (\<forall>j < k. pids ! j \<noteq> 0)
               \<and> placePID pids p = ([], Inr (pids[k := p]))))
       \<and> ((\<forall>k < BGPID_ARR_SIZE. pids ! k \<noteq> 0) \<longrightarrow>
            placePID pids p = ([Perror ''Couldn't track background process.''], Inl (Exit 1)))"
proof (intro conjI impI)
  assume ex: "\<exists>k < BGPID_ARR_SIZE. pids ! k = 0"
  define k where "k = (LEAST k. pids ! k = 0)"
  from ex have z: "pids ! k = 0"
    unfolding k_def by (metis (mono_tags, lifting) LeastI)
  from ex have lt: "k < BGPID_ARR_SIZE"
    unfolding k_def by (metis (mono_tags, lifting) Least_le le_less_trans)
  have first: "\<forall>j < k. pids ! j \<noteq> 0"
    unfolding k_def using not_less_Least by blast
  have "placePID_loop pids p 0 = (pids[k := p], 1)"
    using lt z first by (intro placePID_loop_first) auto
  then have "placePID pids p = ([], Inr (pids[k := p]))"
    by (simp add: placePID_def)
  with z lt first show "\<exists>k < BGPID_ARR_SIZE. pids ! k = 0 \<and> (\<forall>j < k. pids ! j \<noteq> 0)
               \<and> placePID pids p = ([], Inr (pids[k := p]))" by blast
next
  assume "\<forall>k < BGPID_ARR_SIZE. pids ! k \<noteq> 0"
  then have "placePID_loop pids p 0 = (pids, 0)"
    by (intro placePID_loop_full) auto
  then show "placePID pids p = ([Perror ''Couldn't track background process.''], Inl (Exit 1))"
    by (simp add: placePID_def)
qed

theorem C7_placePID_witness:
  "placePID (5 # replicate 19 0) 77 = ([], Inr ((5 # replicate 19 0)[1 := 77])) \<and>
   placePID (replicate 20 9) 77 = ([Perror ''Couldn't track background process.''], Inl (Exit 1))"
proof -
  let ?p = "5 # replicate 19 (0::int)"
  have len: "length ?p = BGPID_ARR_SIZE" by (simp add: BGPID_ARR_SIZE_def)
  have ex: "\<exists>k < BGPID_ARR_SIZE. ?p ! k = 0"
    by (rule exI [of _ 1]) (simp add: BGPID_ARR_SIZE_def)
  from C7_placePID [OF len, of 77, THEN conjunct1, THEN mp, OF ex]
  obtain k where k: "k < BGPID_ARR_SIZE" "?p ! k = 0" "\<forall>j < k. ?p ! j \<noteq> 0"
      "placePID ?p 77 = ([], Inr (?p[k := 77]))"
    by (elim exE conjE)
  have "k \<noteq> 0" using k(2) by (cases k) simp_all
  moreover have "\<not> 1 < k" using k(3) [rule_format, of 1] by auto
  ultimately have "k = 1" by simp
  with k(4) have a: "placePID ?p 77 = ([], Inr (?p[1 := 77]))" by simp
  have len9: "length (replicate 20 (9::int)) = BGPID_ARR_SIZE" by (simp add: BGPID_ARR_SIZE_def)
  have full: "\<forall>k < BGPID_ARR_SIZE. replicate 20 (9::int) ! k \<noteq> 0"
    by (simp add: BGPID_ARR_SIZE_def)
  have b: "placePID (replicate 20 9) 77 = ([Perror ''Couldn't track background process.''], Inl (Exit 1))"
    by (rule C7_placePID [OF len9, of 77, THEN conjunct2, THEN mp, OF full])
  show ?thesis by (intro conjI a b)
qed

text \<open>
  C8. \<^verbatim>\<open>scrubPIDArray\<close> leaves every slot 0; any number of calls of
  \<^verbatim>\<open>resolveBGPID\<close> on the scrubbed table, whatever \<^verbatim>\<open>waitpid\<close> would answer,
  print nothing and leave the table empty; and on any table a call keeps every empty slot
  empty and prints, besides exit and signal lines, only headers for process identifiers
  held in occupied slots.
\<close>

theorem C8_reset_reconcile:
  assumes "length pids = BGPID_ARR_SIZE"
  shows "scrubPIDArray pids = replicate BGPID_ARR_SIZE 0
       \<and> resolve_many ws (scrubPIDArray pids) = ([], replicate BGPID_ARR_SIZE 0)
       \<and> (\<forall>j < BGPID_ARR_SIZE. pids ! j = 0 \<longrightarrow> snd (resolveBGPID wp stat pids) ! j = 0)
       \<and> (\<forall>e \<in> set (fst (resolveBGPID wp stat pids)).
            (\<exists>s. e = report s) \<or>
            (\<exists>j < BGPID_ARR_SIZE. pids ! j \<noteq> 0 \<and> e = done_header (pids ! j)))"
proof -
  have sc: "scrubPIDArray pids = replicate BGPID_ARR_SIZE 0"
    using assms by (rule scrubPIDArray_empty)
  have many: "resolve_many ws (scrubPIDArray pids) = ([], replicate BGPID_ARR_SIZE 0)"
    unfolding sc by (rule resolve_many_empty)
  have keep: "\<forall>j < BGPID_ARR_SIZE. pids ! j = 0 \<longrightarrow> snd (resolveBGPID wp stat pids) ! j = 0"
  proof (intro allI impI)
    fix j assume "j < BGPID_ARR_SIZE" "pids ! j = 0"
    then show "snd (resolveBGPID wp stat pids) ! j = 0"
      using resolve_loop_slots [OF assms, of j wp 0 stat "[]"] by (simp add: resolveBGPID_def)
  qed
  have quiet: "\<forall>e \<in> set (fst (resolveBGPID wp stat pids)).
            (\<exists>s. e = report s) \<or>
            (\<exists>j < BGPID_ARR_SIZE. pids ! j \<noteq> 0 \<and> e = done_header (pids ! j))"
  proof
    fix e assume e: "e \<in> set (fst (resolveBGPID wp stat pids))"
    from resolve_loop_out [OF assms, of wp 0 stat "[]"]
    obtain new where n: "fst (resolveBGPID_loop wp pids 0 stat []) = [] @ new"
       "\<forall>e \<in> set new. (\<exists>s. e = report s) \<or>
                 (\<exists>j. 0 \<le> j \<and> j < BGPID_ARR_SIZE \<and> pids ! j \<noteq> 0 \<and> fst (wp (pids ! j)) \<noteq> 0
                      \<and> e = done_header (pids ! j))"
      by (elim exE conjE)
    from e have "e \<in> set new" using n(1) by (simp add: resolveBGPID_def)
    with n(2) have "(\<exists>s. e = report s) \<or>
                 (\<exists>j. 0 \<le> j \<and> j < BGPID_ARR_SIZE \<and> pids ! j \<noteq> 0 \<and> fst (wp (pids ! j)) \<noteq> 0
                      \<and> e = done_header (pids ! j))" by (rule bspec)
    then show "(\<exists>s. e = report s) \<or>
            (\<exists>j < BGPID_ARR_SIZE. pids ! j \<noteq> 0 \<and> e = done_header (pids ! j))" by auto
  qed
  show ?thesis by (intro conjI sc many keep quiet)
qed

theorem C8_reset_reconcile_witness:
  "scrubPIDArray (0 # 42 # replicate 18 0) = replicate BGPID_ARR_SIZE 0 \<and>
   resolve_many [(all_done, 0), (all_done, 3), (all_done, 9)] (scrubPIDArray (0 # 42 # replicate 18 0))
     = ([], replicate BGPID_ARR_SIZE 0) \<and>
   snd (resolveBGPID all_done 0 (0 # 42 # replicate 18 0)) ! 0 = 0 \<and>
   fst (resolveBGPID all_done 0 (0 # 42 # replicate 18 0))
     = [Printf ''background pid 42 is done: '', Printf ''exit value 0\<newline>'']"
proof -
  let ?p = "0 # 42 # replicate 18 (0::int)"
  have len: "length ?p = BGPID_ARR_SIZE" by (simp add: BGPID_ARR_SIZE_def)
  note th = C8_reset_reconcile [OF len, of "[(all_done, 0), (all_done, 3), (all_done, 9)]" all_done 0]
  have a: "scrubPIDArray ?p = replicate BGPID_ARR_SIZE 0"
    by (rule th [THEN conjunct1])
  have b: "resolve_many [(all_done, 0), (all_done, 3), (all_done, 9)] (scrubPIDArray ?p)
     = ([], replicate BGPID_ARR_SIZE 0)"
    by (rule th [THEN conjunct2, THEN conjunct1])
  have c: "snd (resolveBGPID all_done 0 ?p) ! 0 = 0"
    using th [THEN conjunct2, THEN conjunct2, THEN conjunct1] by (simp add: BGPID_ARR_SIZE_def)
  have d: "fst (resolveBGPID all_done 0 ?p)
     = [Printf ''background pid 42 is done: '', Printf ''exit value 0\<newline>'']"
    by code_simp
  show ?thesis by (intro conjI a b c d)
qed

section \<open>Claims about the session loop\<close>




text \<open>
  C10. Whenever the loop of \<^verbatim>\<open>main\<close> begins a turn and \<^verbatim>\<open>getCommand\<close> returns
  a line, \<^verbatim>\<open>background\<close> is 0 at the call of \<^verbatim>\<open>parseCommand\<close>. Every turn that
  goes on to the next one leaves the flag 0, whatever \<^verbatim>\<open>parseCommand\<close> has made of
  it, and so does each path by itself from any value of the flag: the dispatch with its
  \<^verbatim>\<open>cleanup\<close>, \<^verbatim>\<open>statusShell\<close>, \<^verbatim>\<open>cdShell\<close>, \<^verbatim>\<open>exitShell\<close> and
  \<^verbatim>\<open>cleanup\<close> alone.
\<close>

theorem C10_background_reset:
  assumes "loop_head pid s"
    and "getCommand (cycles t) (backgroundPIDs s) (gl s) = Some (out, Inr (userInput, rest, pids1, g1))"
  shows "background g1 = 0
       \<and> (\<forall>out' s'. main_turn pid t s = Some (out', Inr s') \<longrightarrow> background (gl s') = 0)
       \<and> (\<forall>t' s0 out' s'. dispatch pid t' s0 = (out', Inr s') \<longrightarrow> background (gl s') = 0)
       \<and> (\<forall>st g. background (snd (statusShell st g)) = 0)
       \<and> (\<forall>h av n g out' g'. cdShell h av n g = (out', Inr g') \<longrightarrow> background g' = 0)
       \<and> (\<forall>bg g. background (snd (snd (exitShell bg g))) = 0)
       \<and> (\<forall>av n g av' g'. cleanup av n g = Inr (av', g') \<longrightarrow> background g' = 0)"
proof -
  have a: "background g1 = 0"
    using getCommand_background [OF assms(2)] loop_head_background [OF assms(1)] by simp
  have b: "\<forall>out' s'. main_turn pid t s = Some (out', Inr s') \<longrightarrow> background (gl s') = 0"
    using main_turn_background by blast
  have b': "\<forall>t' s0 out' s'. dispatch pid t' s0 = (out', Inr s') \<longrightarrow> background (gl s') = 0"
    using dispatch_background by blast
  have c: "\<forall>st g. background (snd (statusShell st g)) = 0"
    by (simp add: statusShell_def)
  have d: "\<forall>h av n g out' g'. cdShell h av n g = (out', Inr g') \<longrightarrow> background g' = 0"
    by (auto simp: cdShell_def split: sum.splits if_splits)
  have e: "\<forall>bg g. background (snd (snd (exitShell bg g))) = 0"
    using exitShell_background by blast
  have f: "\<forall>av n g av' g'. cleanup av n g = Inr (av', g') \<longrightarrow> background g' = 0"
    using cleanup_background by blast
  show ?thesis by (intro conjI a b b' c d e f)
qed

theorem C10_background_reset_witness:
  "\<exists>s1 out1 u r p g1.
      main_turn 1234 (one_line_turn ''sleep 5 &\<newline>'' 4242) fresh_shell
        = Some ([Printf '': '', Printf ''background pid is 4242\<newline>''], Inr s1)
    \<and> backgroundPIDs s1 ! 0 = 4242
    \<and> loop_head 1234 s1
    \<and> getCommand (cycles (one_line_turn ''status\<newline>'' 0)) (backgroundPIDs s1) (gl s1)
        = Some (out1, Inr (u, r, p, g1))
    \<and> u = ''status'' \<and> background g1 = 0
    \<and> command_of (parseCommand 1234 ''status &'' (replicate 513 Null) [Null, Null] initial_globals)
          = Inr ([''status''], [Null, Null], 1)
    \<and> background (snd (statusShell (- 5) (initial_globals\<lparr>background := 1\<rparr>))) = 0
    \<and> cdShell (Some ''/tmp'') (replicate 513 Null) 1 (initial_globals\<lparr>background := 1\<rparr>)
          = ([Chdir ''/tmp''], Inr initial_globals)
    \<and> background (snd (snd (exitShell (replicate 20 0) (initial_globals\<lparr>background := 1\<rparr>)))) = 0"
proof -
  have lh0: "loop_head 1234 fresh_shell"
    unfolding fresh_shell_def
    by (rule loop_head.start) (simp_all add: NUM_ARGS_def BGPID_ARR_SIZE_def)
  define mt where "mt = main_turn 1234 (one_line_turn ''sleep 5 &\<newline>'' 4242) fresh_shell"
  have "(case main_turn 1234 (one_line_turn ''sleep 5 &\<newline>'' 4242) fresh_shell of
          None \<Rightarrow> False
        | Some (out, r) \<Rightarrow>
            out = [Printf '': '', Printf ''background pid is 4242\<newline>''] \<and>
            (case r of
               Inl h \<Rightarrow> False
             | Inr s1 \<Rightarrow>
                 backgroundPIDs s1 ! 0 = 4242 \<and>
                 (case getCommand (cycles (one_line_turn ''status\<newline>'' 0))
                         (backgroundPIDs s1) (gl s1) of
                    None \<Rightarrow> False
                  | Some (out1, r1) \<Rightarrow>
                      (case r1 of Inl h \<Rightarrow> False | Inr (u, rest) \<Rightarrow> u = ''status''))))"
    by code_simp
  then obtain out r0 where mt: "mt = Some (out, r0)"
      and o: "out = [Printf '': '', Printf ''background pid is 4242\<newline>'']"
      and r0: "(case r0 of
               Inl h \<Rightarrow> False
             | Inr s1 \<Rightarrow>
                 backgroundPIDs s1 ! 0 = 4242 \<and>
                 (case getCommand (cycles (one_line_turn ''status\<newline>'' 0))
                         (backgroundPIDs s1) (gl s1) of
                    None \<Rightarrow> False
                  | Some (out1, r1) \<Rightarrow>
                      (case r1 of Inl h \<Rightarrow> False | Inr (u, rest) \<Rightarrow> u = ''status'')))"
    unfolding mt_def [symmetric] by (cases mt) auto
  from r0 obtain s1 where s1: "r0 = Inr s1" and bg: "backgroundPIDs s1 ! 0 = 4242"
      and g0: "(case getCommand (cycles (one_line_turn ''status\<newline>'' 0))
                         (backgroundPIDs s1) (gl s1) of
                    None \<Rightarrow> False
                  | Some (out1, r1) \<Rightarrow>
                      (case r1 of Inl h \<Rightarrow> False | Inr (u, rest) \<Rightarrow> u = ''status''))"
    by (cases r0) auto
  from g0 obtain out1 r1 where g1: "getCommand (cycles (one_line_turn ''status\<newline>'' 0))
                         (backgroundPIDs s1) (gl s1) = Some (out1, r1)"
      and r1: "(case r1 of Inl h \<Rightarrow> False | Inr (u, rest) \<Rightarrow> u = ''status'')"
    by (cases "getCommand (cycles (one_line_turn ''status\<newline>'' 0)) (backgroundPIDs s1) (gl s1)") auto
  from r1 obtain u r p g1 where r1': "r1 = Inr (u, r, p, g1)" and u: "u = ''status''"
    by (cases r1) auto
  have m: "main_turn 1234 (one_line_turn ''sleep 5 &\<newline>'' 4242) fresh_shell
            = Some ([Printf '': '', Printf ''background pid is 4242\<newline>''], Inr s1)"
    using mt o s1 by (simp add: mt_def)
  have gc: "getCommand (cycles (one_line_turn ''status\<newline>'' 0)) (backgroundPIDs s1) (gl s1)
            = Some (out1, Inr (u, r, p, g1))"
    using g1 r1' by simp
  have lh1: "loop_head 1234 s1"
    by (rule loop_head.turn [OF lh0 m])
  note th = C10_background_reset [OF lh1 gc]
  have z: "background g1 = 0"
    by (rule th [THEN conjunct1])
  have pa: "command_of (parseCommand 1234 ''status &'' (replicate 513 Null) [Null, Null] initial_globals)
          = Inr ([''status''], [Null, Null], 1)"
    by code_simp
  have st: "background (snd (statusShell (- 5) (initial_globals\<lparr>background := 1\<rparr>))) = 0"
    using th [THEN conjunct2, THEN conjunct2, THEN conjunct2, THEN conjunct1] by simp
  have cd: "cdShell (Some ''/tmp'') (replicate 513 Null) 1 (initial_globals\<lparr>background := 1\<rparr>)
          = ([Chdir ''/tmp''], Inr initial_globals)"
    by code_simp
  have ex: "background (snd (snd (exitShell (replicate 20 0) (initial_globals\<lparr>background := 1\<rparr>)))) = 0"
    using th [THEN conjunct2, THEN conjunct2, THEN conjunct2, THEN conjunct2, THEN conjunct2,
              THEN conjunct1]
    by simp
  show ?thesis
    by (intro exI conjI) (rule m bg lh1 gc u z pa st cd ex)+
qed

section \<open>The argument invariant\<close>

text \<open>
  C1. The claim: every line that \<^verbatim>\<open>getCommand\<close> lets through gives
  \<^verbatim>\<open>parseCommand\<close> at least one argument, so that \<^verbatim>\<open>args[argCount - 1]\<close> and
  \<^verbatim>\<open>args[0]\<close> can be read. The line \<^verbatim>\<open>< in.txt\<close> passes the test of
  \<^verbatim>\<open>getCommand\<close>, both its tokens go to the redirection, \<^verbatim>\<open>argCount\<close> stays 0
  and \<^verbatim>\<open>parseCommand\<close> reads \<^verbatim>\<open>args[-1]\<close>. The line \<^verbatim>\<open>&\<close> passes as well;
  \<^verbatim>\<open>parseCommand\<close> returns 1 with \<^verbatim>\<open>args[0]\<close> set to \<^verbatim>\<open>NULL\<close>, which
  \<^verbatim>\<open>main\<close> hands to \<^verbatim>\<open>strcmp\<close>.
\<close>

theorem C1_line_without_argument:
  "accepted ''< in.txt\<newline>'' \<and> chop ''< in.txt\<newline>'' = Inr ''< in.txt'' \<and>
   parseCommand 1234 ''< in.txt'' (replicate 513 Null) [Null, Null] initial_globals = Inl OutOfBounds \<and>
   main_turn 1234 (one_line_turn ''< in.txt\<newline>'' 4242) fresh_shell
     = Some ([Printf '': ''], Inl OutOfBounds) \<and>
   accepted ''&\<newline>'' \<and> chop ''&\<newline>'' = Inr ''&'' \<and>
   command_of (parseCommand 1234 ''&'' (replicate 513 Null) [Null, Null] initial_globals)
     = Inr ([], [Null, Null], 1) \<and>
   main_turn 1234 (one_line_turn ''&\<newline>'' 4242) fresh_shell
     = Some ([Printf '': ''], Inl NullPointer)"
proof -
  have a: "accepted ''< in.txt\<newline>''" by code_simp
  have b: "chop ''< in.txt\<newline>'' = Inr ''< in.txt''" by code_simp
  have c: "parseCommand 1234 ''< in.txt'' (replicate 513 Null) [Null, Null] initial_globals
             = Inl OutOfBounds" by code_simp
  have d: "main_turn 1234 (one_line_turn ''< in.txt\<newline>'' 4242) fresh_shell
     = Some ([Printf '': ''], Inl OutOfBounds)" by code_simp
  have e: "accepted ''&\<newline>''" by code_simp
  have f: "chop ''&\<newline>'' = Inr ''&''" by code_simp
  have g: "command_of (parseCommand 1234 ''&'' (replicate 513 Null) [Null, Null] initial_globals)
     = Inr ([], [Null, Null], 1)" by code_simp
  have h: "main_turn 1234 (one_line_turn ''&\<newline>'' 4242) fresh_shell
     = Some ([Printf '': ''], Inl NullPointer)" by code_simp
  show ?thesis by (intro conjI a b c d e f g h)
qed


end
